theory Spec2Isabelle
  imports Complex_Main "HOL-Library.Log_Nat"
begin

section \<open>Strings and numbers of the JavaScript runtime\<close>

text \<open>
  A JavaScript string is a sequence of 16-bit code units. The model uses \<^typ>\<open>string\<close>, whose
  characters have 8 bits, read as the code units U+0000 to U+00FF: every string of the model
  is a JavaScript string, and strings with code units above U+00FF are not covered.
  File contents and network chunks are byte sequences and use the same type.
\<close>

definition digit :: "nat \<Rightarrow> char" where
  "digit d = ''0123456789'' ! (d mod 10)"

text \<open>Decimal text of a natural number, as a template literal prints an integer-valued Number.\<close>

function show_nat :: "nat \<Rightarrow> string" where
  "show_nat n = (if n < 10 then [digit n] else show_nat (n div 10) @ [digit (n mod 10)])"
  by pat_completeness auto
termination
  by (relation "measure id") auto

declare show_nat.simps [simp del]

definition show_int :: "int \<Rightarrow> string" where
  "show_int i = (if i < 0 then CHR ''-'' # show_nat (nat (- i)) else show_nat (nat i))"

text \<open>
  \<open>\s\<close> of a regular expression and the characters \<open>trim\<close> removes: WhiteSpace and
  LineTerminator of ECMAScript, of which TAB, LF, VT, FF, CR, SPACE and NO-BREAK SPACE lie
  below U+0100.
\<close>

definition isWs :: "char \<Rightarrow> bool" where
  "isWs c = (c \<in> set [CHR 0x09, CHR 0x0A, CHR 0x0B, CHR 0x0C, CHR 0x0D, CHR 0x20, CHR 0xA0])"

definition trim :: "string \<Rightarrow> string" where
  "trim s = rev (dropWhile isWs (rev (dropWhile isWs s)))"

text \<open>
  \<open>s.split(/\s+/)\<close>: the pieces of \<open>s\<close> between the maximal runs of white space. A run
  at the start or at the end of \<open>s\<close> leaves an empty piece there, and the empty string splits
  into one empty piece.
\<close>

function split_ws :: "string \<Rightarrow> string list" where
  "split_ws s =
     (case dropWhile (\<lambda>c. \<not> isWs c) s of
        [] \<Rightarrow> [s]
      | c # r \<Rightarrow> takeWhile (\<lambda>c. \<not> isWs c) s # split_ws (dropWhile isWs r))"
  by pat_completeness auto
termination
proof (relation "measure length", goal_cases)
  case 1
  show ?case by simp
next
  case (2 s c r)
  have "length (dropWhile isWs r) \<le> length r"
    by (rule length_dropWhile_le)
  moreover have "length (dropWhile (\<lambda>c. \<not> isWs c) s) \<le> length s"
    by (rule length_dropWhile_le)
  ultimately show ?case
    using 2 by simp
qed

declare split_ws.simps [simp del]

text \<open>\<open>xs.join(sep)\<close> on an array of strings.\<close>

fun join :: "string \<Rightarrow> string list \<Rightarrow> string" where
  "join sep [] = []"
| "join sep [x] = x"
| "join sep (x # y # ys) = x @ sep @ join sep (y # ys)"

subsection \<open>Binary64 arithmetic\<close>

text \<open>
  A Number is an IEEE 754 binary64 value. The governor divides and multiplies word counts,
  and the quotient of two integers is rounded: \<open>3500 / (25 / 3)\<close> is just below 420 and its
  floor is 419. \<open>fl\<close> rounds a rational to the nearest binary64 value, ties to even, for
  magnitudes in the normal range (the word counts of this program never leave it).
\<close>

definition rne :: "rat \<Rightarrow> int" where
  "rne q = (let f = \<lfloor>q\<rfloor>; r = q - of_int f in
     if r < 1 / 2 then f else if 1 / 2 < r then f + 1 else if even f then f else f + 1)"

text \<open>The binary exponent \<open>\<lfloor>log\<^sub>2 q\<rfloor>\<close> of a positive rational.\<close>

definition binary_exponent :: "rat \<Rightarrow> int" where
  "binary_exponent q =
     (if 1 \<le> q then bitlen \<lfloor>q\<rfloor> - 1 else - bitlen (\<lceil>1 / q\<rceil> - 1))"

definition fl_pos :: "rat \<Rightarrow> rat" where
  "fl_pos q = (let ulp = 2 powi (binary_exponent q - 52) in of_int (rne (q / ulp)) * ulp)"

definition fl :: "rat \<Rightarrow> rat" where
  "fl q = (if q = 0 then 0 else if q < 0 then - fl_pos (- q) else fl_pos q)"

definition js_div :: "rat \<Rightarrow> rat \<Rightarrow> rat" where
  "js_div a b = fl (a / b)"

definition js_mul :: "rat \<Rightarrow> rat \<Rightarrow> rat" where
  "js_mul a b = fl (a * b)"

section \<open>Values and their JSON text\<close>

text \<open>
  The values the governor receives: what \<open>JSON.parse\<close> can build, and \<open>undefined\<close>.
  A Number is carried as the text \<open>JSON.stringify\<close> prints for it (\<open>null\<close> for NaN and the
  infinities); the governor looks at a number of the data only through \<open>typeof\<close> and
  \<open>JSON.stringify\<close>. An object is the list of its own properties in enumeration order.
\<close>

datatype jsval =
    JUndefined
  | JNull
  | JBool bool
  | JNum string
  | JStr string
  | JArr "jsval list"
  | JObj "(string \<times> jsval) list"

definition hex4 :: "nat \<Rightarrow> string" where
  "hex4 n = map (\<lambda>d. ''0123456789abcdef'' ! d)
              [(n div 4096) mod 16, (n div 256) mod 16, (n div 16) mod 16, n mod 16]"

definition quote_char :: "char \<Rightarrow> string" where
  "quote_char c =
     (if c = CHR 0x08 then [CHR 0x5C, CHR ''b'']
      else if c = CHR 0x09 then [CHR 0x5C, CHR ''t'']
      else if c = CHR 0x0A then [CHR 0x5C, CHR ''n'']
      else if c = CHR 0x0C then [CHR 0x5C, CHR ''f'']
      else if c = CHR 0x0D then [CHR 0x5C, CHR ''r'']
      else if c = CHR 0x22 then [CHR 0x5C, CHR 0x22]
      else if c = CHR 0x5C then [CHR 0x5C, CHR 0x5C]
      else if (of_char c :: nat) < 32 then CHR 0x5C # CHR ''u'' # hex4 (of_char c)
      else [c])"

text \<open>QuoteJSONString of ECMAScript.\<close>

definition quote :: "string \<Rightarrow> string" where
  "quote s = CHR 0x22 # concat (map quote_char s) @ [CHR 0x22]"

text \<open>
  The brackets around the serialized members: \<open>gap\<close> is the indentation unit (empty for
  \<open>JSON.stringify(v)\<close>, two spaces for \<open>JSON.stringify(v, null, 2)\<close>) and \<open>stepback\<close> the
  indentation of the enclosing level.
\<close>

definition wrap :: "string \<Rightarrow> string \<Rightarrow> string \<Rightarrow> string \<Rightarrow> string list \<Rightarrow> string" where
  "wrap l r gap stepback partial =
     (if partial = [] then l @ r
      else if gap = [] then l @ join '','' partial @ r
      else l @ [CHR 0x0A] @ stepback @ gap
             @ join ('','' @ [CHR 0x0A] @ stepback @ gap) partial
             @ [CHR 0x0A] @ stepback @ r)"

text \<open>
  SerializeJSONProperty, SerializeJSONArray and SerializeJSONObject of ECMAScript:
  \<open>undefined\<close> has no text; as an array element it prints \<open>null\<close>, as a property value the
  property is left out.
\<close>

fun ser :: "string \<Rightarrow> string \<Rightarrow> jsval \<Rightarrow> string option"
  and ser_elems :: "string \<Rightarrow> string \<Rightarrow> jsval list \<Rightarrow> string list"
  and ser_props :: "string \<Rightarrow> string \<Rightarrow> (string \<times> jsval) list \<Rightarrow> string list"
where
  "ser gap ind JUndefined = None"
| "ser gap ind JNull = Some ''null''"
| "ser gap ind (JBool b) = Some (if b then ''true'' else ''false'')"
| "ser gap ind (JNum t) = Some t"
| "ser gap ind (JStr s) = Some (quote s)"
| "ser gap ind (JArr xs) = Some (wrap ''['' '']'' gap ind (ser_elems gap (ind @ gap) xs))"
| "ser gap ind (JObj kvs) = Some (wrap ''{'' ''}'' gap ind (ser_props gap (ind @ gap) kvs))"
| "ser_elems gap ind [] = []"
| "ser_elems gap ind (x # xs) =
     (case ser gap ind x of None \<Rightarrow> ''null'' | Some t \<Rightarrow> t) # ser_elems gap ind xs"
| "ser_props gap ind [] = []"
| "ser_props gap ind (kv # kvs) =
     (case ser gap ind (snd kv) of
        None \<Rightarrow> ser_props gap ind kvs
      | Some t \<Rightarrow> (quote (fst kv) @ '':'' @ (if gap = [] then [] else '' '') @ t)
                   # ser_props gap ind kvs)"

definition stringify :: "jsval \<Rightarrow> string option" where
  "stringify v = ser [] [] v"

definition stringify2 :: "jsval \<Rightarrow> string option" where
  "stringify2 v = ser ''  '' [] v"

text \<open>\<open>JSON.stringify(xs, null, 2)\<close> on a value that is an array.\<close>

definition stringify2_array :: "jsval list \<Rightarrow> string" where
  "stringify2_array xs = wrap ''['' '']'' ''  '' [] (ser_elems ''  '' ''  '' xs)"

section \<open>Properties of values\<close>

fun js_typeof :: "jsval \<Rightarrow> string" where
  "js_typeof JUndefined = ''undefined''"
| "js_typeof JNull = ''object''"
| "js_typeof (JBool b) = ''boolean''"
| "js_typeof (JNum t) = ''number''"
| "js_typeof (JStr s) = ''string''"
| "js_typeof (JArr xs) = ''object''"
| "js_typeof (JObj kvs) = ''object''"

text \<open>\<open>typeof v === 'object' && v !== null\<close>\<close>

fun is_object :: "jsval \<Rightarrow> bool" where
  "is_object (JArr xs) = True"
| "is_object (JObj kvs) = True"
| "is_object _ = False"

definition dec_value :: "string \<Rightarrow> nat" where
  "dec_value s = foldl (\<lambda>n c. 10 * n + (of_char c - 48)) 0 s"

text \<open>
  A property key is an array index when it is the decimal text of an integer below
  \<open>2^32 - 1\<close>. An object enumerates its array-index keys first, in ascending order, and
  its other keys after them in the order of their creation.
\<close>

definition array_index :: "string \<Rightarrow> nat option" where
  "array_index k =
     (if k \<noteq> [] \<and> list_all (\<lambda>c. c \<in> set ''0123456789'') k \<and> show_nat (dec_value k) = k
         \<and> dec_value k < 4294967295
      then Some (dec_value k) else None)"

text \<open>The own enumerable properties that \<open>for (key in v)\<close> and \<open>Object.keys(v)\<close> visit.\<close>

fun own_entries :: "jsval \<Rightarrow> (string \<times> jsval) list" where
  "own_entries (JObj kvs) = kvs"
| "own_entries (JArr xs) = zip (map show_nat [0..<length xs]) xs"
| "own_entries _ = []"

text \<open>
  \<open>k in v\<close> and \<open>v[k]\<close> on an object or array, as far as JSON text can show the result: a
  name inherited from \<open>Object.prototype\<close> or \<open>Array.prototype\<close> yields a function, which
  \<open>JSON.stringify\<close> leaves out, and counts as absent here.
\<close>

fun get_prop :: "jsval \<Rightarrow> string \<Rightarrow> jsval option" where
  "get_prop (JObj kvs) k = map_of kvs k"
| "get_prop (JArr xs) k =
     (if k = ''length'' then Some (JNum (show_nat (length xs)))
      else case array_index k of
             Some i \<Rightarrow> if i < length xs then Some (xs ! i) else None
           | None \<Rightarrow> None)"
| "get_prop _ k = None"

fun insert_index :: "nat \<Rightarrow> string \<Rightarrow> jsval \<Rightarrow> (string \<times> jsval) list \<Rightarrow> (string \<times> jsval) list" where
  "insert_index i k v [] = [(k, v)]"
| "insert_index i k v (kv # kvs) =
     (case array_index (fst kv) of
        Some j \<Rightarrow> if j < i then kv # insert_index i k v kvs else (k, v) # kv # kvs
      | None \<Rightarrow> (k, v) # kv # kvs)"

text \<open>
  The assignment \<open>obj[k] = v\<close> on a plain object whose prototype is \<open>Object.prototype\<close>: an
  own property keeps its place, a new one is created at the place its key has in the
  enumeration order. Assigning to \<open>__proto__\<close> when it is not an own property calls the
  inherited setter and creates no property.
\<close>

definition obj_set :: "(string \<times> jsval) list \<Rightarrow> string \<Rightarrow> jsval \<Rightarrow> (string \<times> jsval) list" where
  "obj_set kvs k v =
     (if k \<in> set (map fst kvs) then map (\<lambda>kv. if fst kv = k then (k, v) else kv) kvs
      else if k = ''__proto__'' then kvs
      else case array_index k of
             Some i \<Rightarrow> insert_index i k v kvs
           | None \<Rightarrow> kvs @ [(k, v)])"

section \<open>The response limiter (src/utils/response-limiter.ts)\<close>

definition MAX_WORDS :: nat where
  "MAX_WORDS = 3500"

definition countWords :: "string \<Rightarrow> nat" where
  "countWords text = length (split_ws (trim text))"

definition truncation_marker :: "nat \<Rightarrow> string" where
  "truncation_marker remaining =
     [CHR 0x0A, CHR 0x0A] @ ''[... '' @ show_nat remaining
       @ '' more words truncated. Use filters to get specific data.]''"

definition truncateToWords :: "string \<Rightarrow> nat \<Rightarrow> string" where
  "truncateToWords text maxWords =
     (let words = split_ws (trim text) in
      if length words \<le> maxWords then text
      else let truncated = join '' '' (take maxWords words);
               remaining = length words - maxWords
           in truncated @ truncation_marker remaining)"

text \<open>
  The options of a call: \<open>None\<close> is an absent (\<open>undefined\<close>) option. \<open>maxItems\<close> is an
  integer when present; \<open>fields_opt\<close> is the option \<open>fields\<close>.
\<close>

record LimitOptions =
  maxItems :: "int option"
  fields_opt :: "string list option"
  summary :: "bool option"

record RecommendedFilters =
  rf_maxItems :: int
  suggestedFields :: "string list option"

record ResponseMetadata =
  totalItems :: "nat option"
  totalWords :: nat
  estimatedTokens :: int
  availableFields :: "string list option"
  schema :: jsval
  sampleData :: jsval
  exceedsLimit :: bool
  recommendedFilters :: "RecommendedFilters option"

text \<open>The object \<open>filtered\<close> that the field filter builds for one item.\<close>

text \<open>
  An object that a loop fills by assignments, with whether \<open>__proto__\<close> still names the
  setter of \<open>Object.prototype\<close>. The setter replaces the prototype by an object or \<open>null\<close> and
  ignores other values; it is out of reach once the prototype is \<open>null\<close> or an object with
  a \<open>__proto__\<close> property of its own, and the assignment then creates a property.
\<close>

definition assign ::
  "(string \<times> jsval) list \<times> bool \<Rightarrow> string \<Rightarrow> jsval \<Rightarrow> (string \<times> jsval) list \<times> bool" where
  "assign st k v =
     (if k = ''__proto__'' \<and> k \<notin> set (map fst (fst st)) then
        (if snd st
         then (fst st, case v of
                         JNull \<Rightarrow> False
                       | JObj p \<Rightarrow> ''__proto__'' \<notin> set (map fst p)
                       | _ \<Rightarrow> True)
         else (fst st @ [(k, v)], False))
      else (obj_set (fst st) k v, snd st))"

definition filter_item :: "string list \<Rightarrow> jsval \<Rightarrow> jsval" where
  "filter_item fs item =
     (if \<not> is_object item then item
      else JObj (fst (foldl (\<lambda>filtered field.
                        case get_prop item field of
                          Some v \<Rightarrow> assign filtered field v
                        | None \<Rightarrow> filtered) ([], True) fs)))"

definition limitArrayData :: "jsval \<Rightarrow> LimitOptions \<Rightarrow> jsval" where
  "limitArrayData d options =
     (case d of
        JArr xs \<Rightarrow>
          if xs = [] then d
          else
            let result = (case maxItems options of
                            Some n \<Rightarrow> if n \<noteq> 0 \<and> 0 < n then take (nat n) xs else xs
                          | None \<Rightarrow> xs);
                result = (case fields_opt options of
                            Some fs \<Rightarrow> if fs \<noteq> [] \<and> result \<noteq> []
                                       then map (filter_item fs) result else result
                          | None \<Rightarrow> result)
            in JArr result
      | _ \<Rightarrow> d)"

definition array_or_typeof :: "jsval \<Rightarrow> jsval" where
  "array_or_typeof v = (case v of JArr ys \<Rightarrow> JStr ''array'' | _ \<Rightarrow> JStr (js_typeof v))"

definition array_length_or_typeof :: "jsval \<Rightarrow> jsval" where
  "array_length_or_typeof v =
     (case v of
        JArr ys \<Rightarrow> JObj [(''type'', JStr ''array''), (''length'', JNum (show_nat (length ys)))]
      | _ \<Rightarrow> JStr (js_typeof v))"

definition extractSchema :: "jsval \<Rightarrow> jsval" where
  "extractSchema d =
     (case d of
        JArr (sample # rest) \<Rightarrow>
          if is_object sample
          then JObj (foldl (\<lambda>schema kv. obj_set schema (fst kv) (array_or_typeof (snd kv)))
                       [] (own_entries sample))
          else JNull
      | JArr [] \<Rightarrow> JObj []
      | JObj kvs \<Rightarrow>
          JObj (foldl (\<lambda>schema kv. obj_set schema (fst kv) (array_length_or_typeof (snd kv)))
                  [] kvs)
      | _ \<Rightarrow> JNull)"

definition getAvailableFields :: "jsval \<Rightarrow> string list option" where
  "getAvailableFields d =
     (case d of
        JArr (sample # rest) \<Rightarrow>
          if is_object sample then Some (map fst (own_entries sample)) else None
      | JArr [] \<Rightarrow> Some []
      | JObj kvs \<Rightarrow> Some (map fst kvs)
      | _ \<Rightarrow> None)"

definition createResponseMetadata :: "jsval \<Rightarrow> nat \<Rightarrow> ResponseMetadata" where
  "createResponseMetadata d wordCount =
     (let exceeds = (MAX_WORDS < wordCount);
          total = (case d of JArr xs \<Rightarrow> Some (length xs) | _ \<Rightarrow> None);
          available = getAvailableFields d;
          sch = extractSchema d;
          sample = (case d of
                      JArr xs \<Rightarrow> JArr (take 3 xs)
                    | JObj kvs \<Rightarrow>
                        JObj (foldl (\<lambda>s kv. obj_set s (fst kv) (snd kv)) [] (take 5 kvs))
                    | _ \<Rightarrow> JUndefined);
          recommended =
            (case d of
               JArr xs \<Rightarrow>
                 if exceeds \<and> xs \<noteq> [] then
                   let sampleStr = stringify2_array (take 3 xs);
                       wordsPerItem = js_div (of_nat (countWords sampleStr)) 3;
                       maxIt = \<lfloor>js_div (of_nat MAX_WORDS) wordsPerItem\<rfloor>
                   in Some \<lparr>rf_maxItems = max 10 maxIt,
                            suggestedFields = map_option (take 7) available\<rparr>
                 else None
             | _ \<Rightarrow> None)
      in \<lparr>totalItems = total,
          totalWords = wordCount,
          estimatedTokens = \<lceil>js_mul (of_nat wordCount) (fl (13 / 10))\<rceil>,
          availableFields = available,
          schema = sch,
          sampleData = sample,
          exceedsLimit = exceeds,
          recommendedFilters = recommended\<rparr>)"

definition createArraySummary :: "jsval \<Rightarrow> string" where
  "createArraySummary d =
     (case d of
        JArr (sample # rest) \<Rightarrow>
          let fs = (if is_object sample then join '', '' (map fst (own_entries sample))
                    else ''N/A'')
          in ''Total items: '' @ show_nat (length (sample # rest)) @ [CHR 0x0A]
             @ ''Available fields: '' @ fs @ [CHR 0x0A, CHR 0x0A]
             @ ''First 3 items:'' @ [CHR 0x0A] @ stringify2_array (take 3 (sample # rest))
      | _ \<Rightarrow> ''No data available'')"

text \<open>The result of \<open>limitResponse\<close>; an absent \<open>message\<close> or \<open>metadata\<close> is \<open>None\<close>.\<close>

record Limited =
  data :: jsval
  truncated :: bool
  message :: "string option"
  metadata :: "ResponseMetadata option"

text \<open>
  The metadata record is an object of the program and becomes part of the returned data;
  these functions give it as a value, with the properties in the order of the object literal.
\<close>

definition opt_value :: "('a \<Rightarrow> jsval) \<Rightarrow> 'a option \<Rightarrow> jsval" where
  "opt_value f x = (case x of None \<Rightarrow> JUndefined | Some y \<Rightarrow> f y)"

definition strings_value :: "string list \<Rightarrow> jsval" where
  "strings_value xs = JArr (map JStr xs)"

definition filters_value :: "RecommendedFilters \<Rightarrow> jsval" where
  "filters_value r =
     JObj [(''maxItems'', JNum (show_int (rf_maxItems r))),
           (''suggestedFields'', opt_value strings_value (suggestedFields r))]"

definition metadata_value :: "ResponseMetadata \<Rightarrow> jsval" where
  "metadata_value m =
     JObj [(''totalItems'', opt_value (\<lambda>n. JNum (show_nat n)) (totalItems m)),
           (''totalWords'', JNum (show_nat (totalWords m))),
           (''estimatedTokens'', JNum (show_int (estimatedTokens m))),
           (''availableFields'', opt_value strings_value (availableFields m)),
           (''schema'', schema m),
           (''sampleData'', sampleData m),
           (''exceedsLimit'', JBool (exceedsLimit m)),
           (''recommendedFilters'', opt_value filters_value (recommendedFilters m))]"

text \<open>A template literal prints \<open>undefined\<close> for a \<open>JSON.stringify\<close> without text.\<close>

definition template_text :: "string option \<Rightarrow> string" where
  "template_text t = (case t of None \<Rightarrow> ''undefined'' | Some u \<Rightarrow> u)"

text \<open>\<open>options.maxItems || options.fields || options.summary\<close> as a condition.\<close>

definition hasFilters :: "LimitOptions \<Rightarrow> bool" where
  "hasFilters options =
     ((case maxItems options of Some n \<Rightarrow> n \<noteq> 0 | None \<Rightarrow> False)
      \<or> fields_opt options \<noteq> None
      \<or> summary options = Some True)"

text \<open>The branch without filters: the metadata in place of the data.\<close>

definition metadata_response :: "jsval \<Rightarrow> nat \<Rightarrow> Limited" where
  "metadata_response d wordCount =
     (let meta = createResponseMetadata d wordCount in
      \<lparr>data = JObj
         [(''_metadata'', metadata_value meta),
          (''_message'', JStr (''Response is too large ('' @ show_nat wordCount @ '' words, ~''
             @ show_int (estimatedTokens meta)
             @ '' tokens). Please apply filters to get specific data.'')),
          (''_instructions'', JStr
             (case recommendedFilters meta of
                Some r \<Rightarrow> ''Recommended: Use max_items='' @ show_int (rf_maxItems r)
                  @ '' or fields=''
                  @ template_text (stringify (opt_value strings_value (suggestedFields r)))
              | None \<Rightarrow> ''Use max_items, fields, or summary parameters to filter the response.''))],
       truncated = True,
       message = Some (''Response too large. Returning metadata. Total: ''
          @ (case totalItems meta of
               Some n \<Rightarrow> if n \<noteq> 0 then show_nat n else ''N/A''
             | None \<Rightarrow> ''N/A'')
          @ '' items, '' @ show_nat wordCount @ '' words.''),
       metadata = Some meta\<rparr>)"

text \<open>
  Strategy 1, an array: the number of items that fit is estimated from a sample, and
  \<open>options.maxItems || maxItems\<close> is the cap. A sample of no items divides by zero, and
  \<open>Math.floor(3500 / Infinity)\<close> is 0.
\<close>

definition limit_array :: "jsval list \<Rightarrow> LimitOptions \<Rightarrow> jsval \<times> string" where
  "limit_array xs options =
     (let sampleSize = min 3 (length xs);
          sampleStr = stringify2_array (take sampleSize xs);
          maxIt = (if sampleSize = 0 then 0
                   else \<lfloor>js_div (of_nat MAX_WORDS)
                           (js_div (of_nat (countWords sampleStr)) (of_nat sampleSize))\<rfloor>);
          limitedData = limitArrayData (JArr xs)
            \<lparr>maxItems = Some (case maxItems options of
                                Some n \<Rightarrow> if n \<noteq> 0 then n else maxIt
                              | None \<Rightarrow> maxIt),
             fields_opt = fields_opt options,
             summary = None\<rparr>;
          msg = ''Response limited: Showing ''
            @ show_nat (case limitedData of JArr ys \<Rightarrow> length ys | _ \<Rightarrow> 0)
            @ '' of '' @ show_nat (length xs) @ '' items. ''
            @ (case fields_opt options of
                 Some fs \<Rightarrow> ''Fields: '' @ join '', '' fs @ ''. ''
               | None \<Rightarrow> [])
            @ ''Use maxItems and fields parameters to customize.''
      in (limitedData, msg))"

text \<open>
  Strategy 2, an object: the loop over the keys of the copy. The keys are those the copy
  has when the loop starts; a key added by the loop is not visited.
\<close>

definition truncate_step ::
  "(string \<times> jsval) list \<times> string list \<Rightarrow> string \<Rightarrow> (string \<times> jsval) list \<times> string list" where
  "truncate_step st key =
     (case map_of (fst st) key of
        Some (JArr ys) \<Rightarrow>
          if 10 < length ys
          then (obj_set (obj_set (fst st) key (JArr (take 10 ys))) (key @ ''_truncated'')
                  (JStr (''Showing 10 of '' @ show_nat (length ys) @ '' items'')),
                snd st @ [key])
          else st
      | _ \<Rightarrow> st)"

definition limit_object :: "(string \<times> jsval) list \<Rightarrow> jsval \<times> string" where
  "limit_object kvs =
     (let st = foldl truncate_step (kvs, []) (map fst kvs);
          msg = (if snd st \<noteq> []
                 then ''Large arrays truncated: '' @ join '', '' (snd st)
                      @ ''. Use specific queries to get complete data.''
                 else [])
      in (JObj (fst st), msg))"

datatype exn = TypeError string

text \<open>
  The final check. \<open>countWords\<close> of a \<open>JSON.stringify\<close> without text would throw a
  TypeError (reading \<open>trim\<close> of \<open>undefined\<close>).
\<close>

definition final_check :: "jsval \<times> string \<Rightarrow> exn + Limited" where
  "final_check lm =
     (case stringify2 (fst lm) of
        None \<Rightarrow> Inl (TypeError ''Cannot read properties of undefined (reading 'trim')'')
      | Some jsonStr \<Rightarrow>
          if MAX_WORDS < countWords jsonStr
          then Inr \<lparr>data = JStr (truncateToWords jsonStr MAX_WORDS),
                    truncated = True,
                    message = Some (if snd lm \<noteq> [] then snd lm
                       else ''Response truncated to '' @ show_nat MAX_WORDS
                            @ '' words. Use filters to get specific data.''),
                    metadata = None\<rparr>
          else Inr \<lparr>data = fst lm,
                    truncated = True,
                    message = Some (if snd lm \<noteq> [] then snd lm
                       else ''Response limited to prevent data overflow''),
                    metadata = None\<rparr>)"

text \<open>The part of \<open>limitResponse\<close> that runs when filters were supplied.\<close>

definition limit_filtered :: "jsval \<Rightarrow> LimitOptions \<Rightarrow> nat \<Rightarrow> exn + Limited" where
  "limit_filtered d options wordCount =
     (case d of
        JArr xs \<Rightarrow>
          if summary options = Some True
          then Inr \<lparr>data = JStr (createArraySummary d),
                    truncated = True,
                    message = Some (''Response too large ('' @ show_nat wordCount
                      @ '' words). Showing summary. Use maxItems and fields filters to get specific data.''),
                    metadata = None\<rparr>
          else final_check (limit_array xs options)
      | JObj kvs \<Rightarrow> final_check (limit_object kvs)
      | _ \<Rightarrow> final_check (d, []))"

definition limitResponse :: "jsval \<Rightarrow> LimitOptions \<Rightarrow> exn + Limited" where
  "limitResponse d options =
     (if d = JNull \<or> d = JUndefined
      then Inr \<lparr>data = d, truncated = False, message = None, metadata = None\<rparr>
      else case stringify2 d of
        None \<Rightarrow> Inl (TypeError ''Cannot read properties of undefined (reading 'trim')'')
      | Some jsonStr \<Rightarrow>
          let wordCount = countWords jsonStr in
          if wordCount \<le> MAX_WORDS
          then Inr \<lparr>data = d, truncated = False, message = None, metadata = None\<rparr>
          else if \<not> hasFilters options then Inr (metadata_response d wordCount)
          else limit_filtered d options wordCount)"




text \<open>
  The text \<open>formatLimitedResponse\<close> sends for the data of a result: a string as it is, any
  other value as its JSON text.
\<close>

definition payload_text :: "jsval \<Rightarrow> string option" where
  "payload_text v = (case v of JStr s \<Rightarrow> Some s | _ \<Rightarrow> stringify2 v)"

section \<open>Paths and the file system\<close>

text \<open>
  \<open>s.toLowerCase()\<close> on code units below U+0100: the letters A to Z, and the Latin-1
  capitals U+00C0 to U+00DE other than the multiplication sign U+00D7.
\<close>

definition capital_letters :: string where
  "capital_letters = ''ABCDEFGHIJKLMNOPQRSTUVWXYZ''
     @ [CHR 0xC0, CHR 0xC1, CHR 0xC2, CHR 0xC3, CHR 0xC4, CHR 0xC5, CHR 0xC6, CHR 0xC7,
        CHR 0xC8, CHR 0xC9, CHR 0xCA, CHR 0xCB, CHR 0xCC, CHR 0xCD, CHR 0xCE, CHR 0xCF,
        CHR 0xD0, CHR 0xD1, CHR 0xD2, CHR 0xD3, CHR 0xD4, CHR 0xD5, CHR 0xD6, CHR 0xD8,
        CHR 0xD9, CHR 0xDA, CHR 0xDB, CHR 0xDC, CHR 0xDD, CHR 0xDE]"

definition small_letters :: string where
  "small_letters = ''abcdefghijklmnopqrstuvwxyz''
     @ [CHR 0xE0, CHR 0xE1, CHR 0xE2, CHR 0xE3, CHR 0xE4, CHR 0xE5, CHR 0xE6, CHR 0xE7,
        CHR 0xE8, CHR 0xE9, CHR 0xEA, CHR 0xEB, CHR 0xEC, CHR 0xED, CHR 0xEE, CHR 0xEF,
        CHR 0xF0, CHR 0xF1, CHR 0xF2, CHR 0xF3, CHR 0xF4, CHR 0xF5, CHR 0xF6, CHR 0xF8,
        CHR 0xF9, CHR 0xFA, CHR 0xFB, CHR 0xFC, CHR 0xFD, CHR 0xFE]"

definition lower_char :: "char \<Rightarrow> char" where
  "lower_char c = (case map_of (zip capital_letters small_letters) c of Some l \<Rightarrow> l | None \<Rightarrow> c)"

definition toLowerCase :: "string \<Rightarrow> string" where
  "toLowerCase s = map lower_char s"

text \<open>
  The functions of Node's \<open>path\<close> module, in their POSIX form. \<open>path_basename\<close> drops
  trailing slashes and keeps what follows the last remaining slash.
\<close>

definition path_basename :: "string \<Rightarrow> string" where
  "path_basename p =
     rev (takeWhile (\<lambda>c. c \<noteq> CHR ''/'') (dropWhile (\<lambda>c. c = CHR ''/'') (rev p)))"


text \<open>
  \<open>path.extname(p)\<close>: from the last dot of the base name to its end; empty when there is no
  dot, when the only dot is the first character, or when the base name is \<open>..\<close>.
\<close>

definition path_extname :: "string \<Rightarrow> string" where
  "path_extname p =
     (let b = path_basename p;
          after = takeWhile (\<lambda>c. c \<noteq> CHR ''.'') (rev b)
      in if CHR ''.'' \<notin> set b \<or> length after + 1 = length b \<or> b = ''..'' then []
         else CHR ''.'' # rev after)"

fun split_on :: "char \<Rightarrow> string \<Rightarrow> string list" where
  "split_on d [] = [[]]"
| "split_on d (c # cs) =
     (if c = d then [] # split_on d cs
      else case split_on d cs of
             [] \<Rightarrow> [[c]]
           | w # ws \<Rightarrow> (c # w) # ws)"

text \<open>
  The segments of a path with the empty and \<open>.\<close> segments dropped and \<open>..\<close> resolved against
  the segment before it; \<open>up\<close> says whether a \<open>..\<close> with nothing before it is kept (a
  relative path) or dropped (an absolute one). \<open>acc\<close> is the result so far, last segment
  first.
\<close>

fun resolve_dots :: "bool \<Rightarrow> string list \<Rightarrow> string list \<Rightarrow> string list" where
  "resolve_dots up acc [] = rev acc"
| "resolve_dots up acc (s # ss) =
     (if s = [] \<or> s = ''.'' then resolve_dots up acc ss
      else if s = ''..'' then
        (case acc of
           a # rest \<Rightarrow>
             if a \<noteq> ''..'' then resolve_dots up rest ss
             else if up then resolve_dots up (''..'' # acc) ss
             else resolve_dots up acc ss
         | [] \<Rightarrow> if up then resolve_dots up [''..''] ss else resolve_dots up [] ss)
      else resolve_dots up (s # acc) ss)"

definition path_normalize :: "string \<Rightarrow> string" where
  "path_normalize p =
     (if p = [] then ''.''
      else
        let isAbsolute = (hd p = CHR ''/'');
            trailingSeparator = (last p = CHR ''/'');
            body = join ''/'' (resolve_dots (\<not> isAbsolute) [] (split_on CHR ''/'' p))
        in if body = [] then (if isAbsolute then ''/'' else if trailingSeparator then ''./'' else ''.'')
           else (if isAbsolute then ''/'' else []) @ body
                @ (if trailingSeparator then ''/'' else []))"

definition path_join :: "string list \<Rightarrow> string" where
  "path_join parts =
     (let given = filter (\<lambda>a. a \<noteq> []) parts in
      if given = [] then ''.'' else path_normalize (join ''/'' given))"

text \<open>
  The file system is a tree: a file with its contents, or a directory with its entries
  in the order \<open>readdirSync\<close> lists them. A path names a node by its segments from the
  root; every path the program passes to \<open>fs\<close> is a result of \<open>path.join\<close> that starts with
  \<open>process.cwd()\<close>: it is absolute and normalized, and may end with a slash. The tree has no
  links.
\<close>

datatype node = File string | Dir "(string \<times> node) list"

definition segments :: "string \<Rightarrow> string list" where
  "segments p = resolve_dots False [] (split_on CHR ''/'' p)"

fun lookup :: "node \<Rightarrow> string list \<Rightarrow> node option" where
  "lookup n [] = Some n"
| "lookup (File c) (s # ss) = None"
| "lookup (Dir es) (s # ss) = (case map_of es s of None \<Rightarrow> None | Some n \<Rightarrow> lookup n ss)"

text \<open>An entry of a directory replaced, added at the end, or (with \<open>None\<close>) removed.\<close>

definition set_entry :: "string \<Rightarrow> node option \<Rightarrow> (string \<times> node) list \<Rightarrow> (string \<times> node) list" where
  "set_entry s n es =
     (case n of
        None \<Rightarrow> filter (\<lambda>e. fst e \<noteq> s) es
      | Some m \<Rightarrow> if s \<in> set (map fst es) then map (\<lambda>e. if fst e = s then (s, m) else e) es
                  else es @ [(s, m)])"

text \<open>
  The node at a path changed by \<open>f\<close>, when the directory that holds it exists; the tree is
  unchanged otherwise.
\<close>

fun alter :: "(node option \<Rightarrow> node option) \<Rightarrow> string list \<Rightarrow> node \<Rightarrow> node" where
  "alter f [] n = n"
| "alter f (s # ss) (File c) = File c"
| "alter f [s] (Dir es) = Dir (set_entry s (f (map_of es s)) es)"
| "alter f (s # s' # ss) (Dir es) =
     (case map_of es s of
        None \<Rightarrow> Dir es
      | Some n \<Rightarrow> Dir (set_entry s (Some (alter f (s' # ss) n)) es))"

text \<open>
  \<open>fs.statSync(p)\<close>: the node a path names, \<open>None\<close> when the call fails. A path that ends
  with a slash names directories only (on a file the call fails with ENOTDIR), and the empty
  path names nothing.
\<close>

definition stat :: "node \<Rightarrow> string \<Rightarrow> node option" where
  "stat t p =
     (if p = [] then None
      else case lookup t (segments p) of
             Some (File c) \<Rightarrow> if last p = CHR ''/'' then None else Some (File c)
           | other \<Rightarrow> other)"

text \<open>
  The error code when a path names nothing: ENOTDIR when the walk meets a file before the
  path ends, ENOENT when an entry is missing.
\<close>

fun errno :: "node \<Rightarrow> string list \<Rightarrow> string" where
  "errno (File c) ss = ''ENOTDIR: not a directory''"
| "errno (Dir es) [] = ''ENOENT: no such file or directory''"
| "errno (Dir es) (s # ss) =
     (case map_of es s of
        None \<Rightarrow> ''ENOENT: no such file or directory''
      | Some n \<Rightarrow> errno n ss)"

definition existsSync :: "node \<Rightarrow> string \<Rightarrow> bool" where
  "existsSync t p = (stat t p \<noteq> None)"

text \<open>
  \<open>fs.createWriteStream(p)\<close> opening its file: the file is created empty, or emptied, when
  its directory exists, \<open>p\<close> is not a directory and does not end with a slash. \<open>None\<close>: the
  open fails, and the stream will emit \<open>error\<close>.
\<close>

definition fs_open_write :: "node \<Rightarrow> string \<Rightarrow> node option" where
  "fs_open_write t p =
     (let ss = segments p in
      if ss = [] \<or> p = [] \<or> last p = CHR ''/'' then None
      else case lookup t (butlast ss) of
             Some (Dir es) \<Rightarrow>
               (case map_of es (last ss) of
                  Some (Dir sub) \<Rightarrow> None
                | _ \<Rightarrow> Some (alter (\<lambda>old. Some (File [])) ss t))
           | _ \<Rightarrow> None)"

definition fs_append :: "node \<Rightarrow> string \<Rightarrow> string \<Rightarrow> node" where
  "fs_append t p chunk =
     alter (\<lambda>old. case old of Some (File c) \<Rightarrow> Some (File (c @ chunk)) | other \<Rightarrow> other)
       (segments p) t"

text \<open>\<open>fs.unlinkSync(p)\<close>; \<open>None\<close> when it throws (no file at \<open>p\<close>).\<close>

definition fs_unlink :: "node \<Rightarrow> string \<Rightarrow> node option" where
  "fs_unlink t p =
     (case stat t p of
        Some (File c) \<Rightarrow> if segments p = [] then None else Some (alter (\<lambda>old. None) (segments p) t)
      | _ \<Rightarrow> None)"

text \<open>\<open>fs.mkdirSync(p, { recursive: true })\<close>; \<open>None\<close> when a file is in the way.\<close>

fun mkdirp :: "string list \<Rightarrow> node \<Rightarrow> node option" where
  "mkdirp [] (Dir es) = Some (Dir es)"
| "mkdirp [] (File c) = None"
| "mkdirp (s # ss) (File c) = None"
| "mkdirp (s # ss) (Dir es) =
     (case map_of es s of
        Some n \<Rightarrow> (case mkdirp ss n of
                     None \<Rightarrow> None
                   | Some n' \<Rightarrow> Some (Dir (set_entry s (Some n') es)))
      | None \<Rightarrow> (case mkdirp ss (Dir []) of
                   None \<Rightarrow> None
                 | Some n' \<Rightarrow> Some (Dir (es @ [(s, n')]))))"

text \<open>
  The errors of \<open>fs\<close> carry Node's message, which names the error code, the system call
  and the path.
\<close>

definition fs_error :: "string \<Rightarrow> string \<Rightarrow> string \<Rightarrow> string" where
  "fs_error code syscall p = code @ '', '' @ syscall @ '' '' @ [CHR 0x27] @ p @ [CHR 0x27]"


definition unlink_error :: "node \<Rightarrow> string \<Rightarrow> string" where
  "unlink_error t p =
     fs_error (case stat t p of
                 Some n \<Rightarrow> ''EISDIR: illegal operation on a directory''
               | None \<Rightarrow> errno t (segments p)) ''unlink'' p"

definition readFileSync :: "node \<Rightarrow> string \<Rightarrow> string + string" where
  "readFileSync t p =
     (case stat t p of
        Some (File c) \<Rightarrow> Inr c
      | Some (Dir es) \<Rightarrow> Inl ''EISDIR: illegal operation on a directory, read''
      | None \<Rightarrow> Inl (fs_error (errno t (segments p)) ''open'' p))"

text \<open>
  The entries of a directory and, through its subdirectories, all the files below it:
  \<open>getAllFiles(dirPath, arrayOfFiles)\<close>.
\<close>

fun all_files :: "string \<Rightarrow> (string \<times> node) list \<Rightarrow> string list \<Rightarrow> string list" where
  "all_files dirPath [] arrayOfFiles = arrayOfFiles"
| "all_files dirPath ((name, File c) # es) arrayOfFiles =
     all_files dirPath es (arrayOfFiles @ [path_join [dirPath, name]])"
| "all_files dirPath ((name, Dir sub) # es) arrayOfFiles =
     all_files dirPath es (all_files (path_join [dirPath, name]) sub arrayOfFiles)"

definition getAllFiles :: "node \<Rightarrow> string \<Rightarrow> string + string list" where
  "getAllFiles t dirPath =
     (case stat t dirPath of
        Some (Dir es) \<Rightarrow> Inr (all_files dirPath es [])
      | Some (File c) \<Rightarrow> Inl (fs_error ''ENOTDIR: not a directory'' ''scandir'' dirPath)
      | None \<Rightarrow> Inl (fs_error (errno t (segments dirPath)) ''scandir'' dirPath))"


section \<open>The document handler\<close>

text \<open>
  What the handler takes from outside the program: the working directory, the URL
  parser, the PDF parser, the \<open>unzip\<close> command and the size \<open>statSync\<close> reports for a
  directory.
  \<^item> \<open>url_pathname u\<close> is \<open>new URL(u).pathname\<close>, \<open>None\<close> when the constructor throws;
  \<^item> \<open>pdf_getText bytes\<close> is the result of \<open>new PDFParse({ data }).getText()\<close> on the
    contents of a file: the text of the document and of each page, or \<open>Inl\<close> the message
    of the error it throws;
  \<^item> \<open>unzip t zipPath extractPath\<close> is what \<open>unzip -o\<close> (or the PowerShell fallback) does to
    the file system \<open>t\<close>: whether one of them succeeded, and the file system afterwards.
\<close>

record TextResult =
  full_text :: string
  page_texts :: "string list"

record runtime =
  cwd :: string
  url_pathname :: "string \<Rightarrow> string option"
  pdf_getText :: "string \<Rightarrow> string + TextResult"
  unzip :: "node \<Rightarrow> string \<Rightarrow> string \<Rightarrow> bool \<times> node"
  dir_size :: nat

subsection \<open>extractPdfText\<close>

text \<open>An absent option is \<open>None\<close>; a page number is an integer.\<close>

record PageOptions =
  startPage :: "int option"
  endPage :: "int option"
  pages :: "int list option"

text \<open>The result: \<open>pdf_text\<close> is the field \<open>text\<close>.\<close>

record PdfExtract =
  pdf_text :: string
  totalPages :: nat
  extractedPages :: string

text \<open>\<open>x || d\<close> for an optional number: 0 and \<open>undefined\<close> give \<open>d\<close>.\<close>

definition or_default :: "int option \<Rightarrow> int \<Rightarrow> int" where
  "or_default x d = (case x of Some n \<Rightarrow> if n \<noteq> 0 then n else d | None \<Rightarrow> d)"

definition truthy :: "int option \<Rightarrow> bool" where
  "truthy x = (case x of Some n \<Rightarrow> n \<noteq> 0 | None \<Rightarrow> False)"

text \<open>
  The body of both page loops: the page with its header, when \<open>textResult.pages[pageIndex]\<close>
  exists.
\<close>

definition page_block :: "string list \<Rightarrow> int \<Rightarrow> string" where
  "page_block ps pageNum =
     (let pageIndex = pageNum - 1 in
      if 0 \<le> pageIndex \<and> nat pageIndex < length ps
      then [CHR 0x0A, CHR 0x0A] @ ''--- PAGE '' @ show_int pageNum @ '' ---''
           @ [CHR 0x0A, CHR 0x0A] @ ps ! nat pageIndex
      else [])"

text \<open>The extracted text and the descriptor of the extracted pages.\<close>

definition select_pages :: "TextResult \<Rightarrow> PageOptions option \<Rightarrow> string \<times> string" where
  "select_pages textResult pageOptions =
     (let n = int (length (page_texts textResult));
          everything = (full_text textResult, ''1-'' @ show_int n)
      in case pageOptions of
           None \<Rightarrow> everything
         | Some opts \<Rightarrow>
             if (case pages opts of Some ps \<Rightarrow> ps \<noteq> [] | None \<Rightarrow> False) then
               let validPages = filter (\<lambda>p. 1 \<le> p \<and> p \<le> n) (case pages opts of Some ps \<Rightarrow> ps | None \<Rightarrow> [])
               in (concat (map (page_block (page_texts textResult)) validPages),
                   join '', '' (map show_int validPages))
             else if truthy (startPage opts) \<or> truthy (endPage opts) then
               let first = max 1 (or_default (startPage opts) 1);
                   last = min n (or_default (endPage opts) n)
               in (concat (map (page_block (page_texts textResult)) [first..last]),
                   show_int first @ ''-'' @ show_int last)
             else everything)"

text \<open>
  \<open>extractPdfText\<close>: reading the file and parsing it are inside the \<open>try\<close>, and what either
  throws is caught.
\<close>

definition extractPdfText :: "runtime \<Rightarrow> node \<Rightarrow> string \<Rightarrow> PageOptions option \<Rightarrow> PdfExtract" where
  "extractPdfText rt t filepath pageOptions =
     (case (case readFileSync t filepath of
              Inl msg \<Rightarrow> Inl msg
            | Inr dataBuffer \<Rightarrow> pdf_getText rt dataBuffer) of
        Inl msg \<Rightarrow>
          \<lparr>pdf_text = ''PDF file: '' @ path_basename filepath @ [CHR 0x0A, CHR 0x0A]
             @ ''Error extracting text: '' @ msg @ [CHR 0x0A, CHR 0x0A]
             @ ''File location: '' @ filepath,
           totalPages = 0,
           extractedPages = ''error''\<rparr>
      | Inr textResult \<Rightarrow>
          let total = length (page_texts textResult);
              sel = select_pages textResult pageOptions
          in \<lparr>pdf_text = ''PDF: '' @ path_basename filepath @ [CHR 0x0A]
                @ ''Total Pages: '' @ show_nat total @ '' | Extracted Pages: '' @ snd sel
                @ '' | Text Length: '' @ show_nat (length (fst sel)) @ '' characters''
                @ [CHR 0x0A, CHR 0x0A] @ replicate 80 CHR ''='' @ [CHR 0x0A] @ fst sel,
              totalPages = total,
              extractedPages = snd sel\<rparr>)"

subsection \<open>downloadFile\<close>

text \<open>
  \<open>downloadFile\<close> registers callbacks and returns a promise. What happens next is a
  sequence of events, each running one callback:
  \<^item> \<open>Response statusCode location contentLength\<close>: the response to the request in flight,
    with its \<open>location\<close> and \<open>content-length\<close> headers (Node's parser delivers a
    \<open>content-length\<close> only when it is a decimal number);
  \<^item> \<open>Data chunk\<close>: a chunk of the body;
  \<^item> \<open>Finish\<close>: the write stream has written everything;
  \<^item> \<open>StreamError message\<close>: the write stream fails;
  \<^item> \<open>RequestError message\<close>: the request fails;
  \<^item> \<open>Timeout\<close>: the socket was idle for 60 seconds.
\<close>

datatype event =
    Response nat "string option" "nat option"
  | Data string
  | Finish
  | StreamError string
  | RequestError string
  | Timeout

text \<open>
  The promise: pending, resolved, rejected with an error message, or left pending by a
  callback that threw (the exception is nobody's to catch).
\<close>

datatype promise = Pending | Resolved | Rejected string | Uncaught string

record download =
  dl_fs :: node
  dl_promise :: promise
  streaming :: bool
  stream_open :: bool
  downloadedBytes :: nat

text \<open>\<open>(contentLength / 1024 / 1024).toFixed(2)\<close>: hundredths, a tie rounded up.\<close>

definition toFixed2_MB :: "nat \<Rightarrow> string" where
  "toFixed2_MB contentLength =
     (let h = (200 * contentLength + 1048576) div 2097152 in
      show_nat (h div 100) @ ''.'' @ [digit (h div 10), digit h])"

definition file_too_large :: "nat \<Rightarrow> nat \<Rightarrow> string" where
  "file_too_large contentLength maxSizeMB =
     ''File too large: '' @ toFixed2_MB contentLength @ '' MB (max: '' @ show_nat maxSizeMB @ '' MB)''"

text \<open>\<open>None\<close> and the empty string are the falsy values of an optional string.\<close>

definition given :: "string option \<Rightarrow> bool" where
  "given x = (case x of Some s \<Rightarrow> s \<noteq> [] | None \<Rightarrow> False)"

text \<open>
  The callback of \<open>protocol.get\<close>. A 301 or 302 with a location starts \<open>downloadFile\<close> again
  for the new URL, with a new request: the state is that of a request in flight.
\<close>

definition on_response ::
  "nat \<Rightarrow> string \<Rightarrow> download \<Rightarrow> nat \<Rightarrow> string option \<Rightarrow> nat option \<Rightarrow> download" where
  "on_response maxSizeMB filepath st statusCode location contentLengthHeader =
     (let maxBytes = maxSizeMB * 1024 * 1024 in
      if (statusCode = 301 \<or> statusCode = 302)
         \<and> given location
      then st
      else if statusCode \<noteq> 200
      then st\<lparr>dl_promise := Rejected (''Failed to download: HTTP '' @ show_nat statusCode)\<rparr>
      else
        let contentLength = (case contentLengthHeader of Some n \<Rightarrow> n | None \<Rightarrow> 0) in
        if maxBytes < contentLength
        then st\<lparr>dl_promise := Rejected (file_too_large contentLength maxSizeMB)\<rparr>
        else case fs_open_write (dl_fs st) filepath of
               Some t \<Rightarrow> st\<lparr>dl_fs := t, streaming := True, stream_open := True,
                             downloadedBytes := 0\<rparr>
             | None \<Rightarrow> st\<lparr>streaming := True, stream_open := False, downloadedBytes := 0\<rparr>)"

text \<open>
  A chunk: first the size check of the \<open>data\<close> listener, which on a breach closes the
  stream, unlinks the file and rejects; then the write of \<open>pipe\<close>, into an open stream.
\<close>

definition on_data :: "nat \<Rightarrow> string \<Rightarrow> download \<Rightarrow> string \<Rightarrow> download" where
  "on_data maxSizeMB filepath st chunk =
     (let maxBytes = maxSizeMB * 1024 * 1024;
          st1 = st\<lparr>downloadedBytes := downloadedBytes st + length chunk\<rparr>
      in if maxBytes < downloadedBytes st1 then
           (case fs_unlink (dl_fs st1) filepath of
              Some t \<Rightarrow> st1\<lparr>dl_fs := t, stream_open := False,
                            dl_promise := Rejected ''File exceeded size limit during download''\<rparr>
            | None \<Rightarrow> st1\<lparr>stream_open := False,
                          dl_promise := Uncaught (unlink_error (dl_fs st1) filepath)\<rparr>)
         else if stream_open st1 then st1\<lparr>dl_fs := fs_append (dl_fs st1) filepath chunk\<rparr>
         else st1)"

definition on_stream_error :: "string \<Rightarrow> download \<Rightarrow> string \<Rightarrow> download" where
  "on_stream_error filepath st msg =
     (case fs_unlink (dl_fs st) filepath of
        Some t \<Rightarrow> st\<lparr>dl_fs := t, stream_open := False, dl_promise := Rejected msg\<rparr>
      | None \<Rightarrow> st\<lparr>stream_open := False,
                    dl_promise := Uncaught (unlink_error (dl_fs st) filepath)\<rparr>)"

text \<open>
  One event. The listeners of the response and of the write stream exist once a response
  was accepted (\<open>streaming\<close>); \<open>finish\<close> comes from a stream that has its file open.
\<close>

fun on_event :: "nat \<Rightarrow> string \<Rightarrow> download \<Rightarrow> event \<Rightarrow> download" where
  "on_event maxSizeMB filepath st (Response statusCode location contentLength) =
     (if streaming st then st
      else on_response maxSizeMB filepath st statusCode location contentLength)"
| "on_event maxSizeMB filepath st (Data chunk) =
     (if streaming st then on_data maxSizeMB filepath st chunk else st)"
| "on_event maxSizeMB filepath st Finish =
     (if streaming st \<and> stream_open st then st\<lparr>stream_open := False, dl_promise := Resolved\<rparr>
      else st)"
| "on_event maxSizeMB filepath st (StreamError msg) =
     (if streaming st then on_stream_error filepath st msg else st)"
| "on_event maxSizeMB filepath st (RequestError msg) = st\<lparr>dl_promise := Rejected msg\<rparr>"
| "on_event maxSizeMB filepath st Timeout = st\<lparr>dl_promise := Rejected ''Download timeout''\<rparr>"

text \<open>The events in order, up to the one that settles the promise.\<close>

fun run_events :: "nat \<Rightarrow> string \<Rightarrow> download \<Rightarrow> event list \<Rightarrow> download" where
  "run_events maxSizeMB filepath st [] = st"
| "run_events maxSizeMB filepath st (e # es) =
     (if dl_promise st \<noteq> Pending then st
      else run_events maxSizeMB filepath (on_event maxSizeMB filepath st e) es)"

text \<open>
  \<open>downloadFile(url, filepath, maxSizeMB)\<close> on the file system \<open>t\<close>, with the events that
  follow: the state of the promise and the file system when the promise settles (or when
  the events end). The URL decides only which request is made.
\<close>

definition downloadFile :: "string \<Rightarrow> string \<Rightarrow> nat \<Rightarrow> node \<Rightarrow> event list \<Rightarrow> promise \<times> node" where
  "downloadFile url filepath maxSizeMB t events =
     (let st = run_events maxSizeMB filepath
                 \<lparr>dl_fs = t, dl_promise = Pending, streaming = False, stream_open = False,
                  downloadedBytes = 0\<rparr> events
      in (dl_promise st, dl_fs st))"



text \<open>Before the write stream is created, the download has made no file at its path.\<close>

definition not_created :: "string \<Rightarrow> download \<Rightarrow> bool" where
  "not_created p st = (\<not> streaming st \<longrightarrow> stat (dl_fs st) p = None)"

subsection \<open>The retrieval entry points\<close>

text \<open>
  The state the entry points share is the file system. \<open>fetch_log\<close> is added for the
  claims: every call of \<open>downloadFile\<close> is recorded with its URL and the state of its
  promise when the call is over.
\<close>

record world =
  disk :: node
  fetch_log :: "(string \<times> promise) list"

text \<open>
  An asynchronous function returns, throws (its promise is rejected), or never settles.
\<close>

datatype 'a completion = Returned 'a | Threw string | NoReturn

text \<open>
  \<open>DownloadResult\<close>: \<open>file_metadata\<close> is the field \<open>metadata\<close>, with \<open>size_bytes\<close>,
  \<open>file_type\<close>, \<open>page_count\<close> and \<open>extracted\<close> for \<open>size\<close>, \<open>type\<close>, \<open>pages\<close> and
  \<open>extractedPages\<close>.
\<close>

record FileMetadata =
  filename :: string
  size_bytes :: nat
  file_type :: string
  page_count :: "nat option"
  extracted :: "string option"

record DownloadResult =
  success :: bool
  content :: "string option"
  files :: "string list option"
  error :: "string option"
  file_metadata :: "FileMetadata option"

definition failure :: "string \<Rightarrow> DownloadResult" where
  "failure msg =
     \<lparr>success = False, content = None, files = None, error = Some msg, file_metadata = None\<rparr>"

definition downloadDir :: "runtime \<Rightarrow> string" where
  "downloadDir rt = path_join [cwd rt, ''downloads'', ''documents'']"

text \<open>\<open>fs.statSync(p).size\<close>, or the message of the error \<open>statSync\<close> throws.\<close>

definition statSync_size :: "runtime \<Rightarrow> node \<Rightarrow> string \<Rightarrow> string + nat" where
  "statSync_size rt t p =
     (case stat t p of
        Some (File c) \<Rightarrow> Inr (length c)
      | Some (Dir es) \<Rightarrow> Inr (dir_size rt)
      | None \<Rightarrow> Inl (fs_error (errno t (segments p)) ''stat'' p))"

text \<open>\<open>await downloadFile(url, filepath, maxSizeMB)\<close>, recorded in the log.\<close>

definition await_download ::
  "string \<Rightarrow> string \<Rightarrow> nat \<Rightarrow> event list \<Rightarrow> world \<Rightarrow> promise \<times> world" where
  "await_download url filepath maxSizeMB events w =
     (let r = downloadFile url filepath maxSizeMB (disk w) events
      in (fst r, \<lparr>disk = snd r, fetch_log = fetch_log w @ [(url, fst r)]\<rparr>))"


definition rule80 :: string where
  "rule80 = replicate 80 CHR ''=''"








text \<open>\<open>path.basename(urlObj.pathname) || 'document'\<close>\<close>

definition url_filename :: "string \<Rightarrow> string" where
  "url_filename pathname =
     (if path_basename pathname = [] then ''document'' else path_basename pathname)"


text \<open>
  The first part of \<open>readDocumentPages\<close>, which settles \<open>filepath\<close>: the cached or
  downloaded file, a failure result, or no return.
\<close>

datatype resolution = Found string | Failed DownloadResult | Hangs

definition after_download :: "string \<Rightarrow> promise \<times> world \<Rightarrow> resolution \<times> world" where
  "after_download filepath r =
     (case fst r of
        Resolved \<Rightarrow> (Found filepath, snd r)
      | Rejected msg \<Rightarrow> (Failed (failure msg), snd r)
      | Pending \<Rightarrow> (Hangs, snd r)
      | Uncaught msg \<Rightarrow> (Hangs, snd r))"

definition text_of :: "string option \<Rightarrow> string" where
  "text_of x = (case x of Some s \<Rightarrow> s | None \<Rightarrow> [])"

definition resolve_file ::
  "runtime \<Rightarrow> event list \<Rightarrow> world \<Rightarrow> string option \<Rightarrow> string option \<Rightarrow> nat
   \<Rightarrow> resolution \<times> world" where
  "resolve_file rt events w fname_opt url_opt maxSizeMB =
     (if given fname_opt then
        let fname = text_of fname_opt;
            directPath = path_join [downloadDir rt, fname]
        in if existsSync (disk w) directPath then (Found directPath, w)
           else case getAllFiles (disk w) (downloadDir rt) of
                  Inl msg \<Rightarrow> (Failed (failure msg), w)
                | Inr allFiles \<Rightarrow>
                    (case filter (\<lambda>f. path_basename f = fname) allFiles of
                       f # others \<Rightarrow> (Found f, w)
                     | [] \<Rightarrow>
                         if given url_opt
                         then after_download directPath
                                (await_download (text_of url_opt) directPath maxSizeMB events w)
                         else (Failed (failure (''File not found in cache: '' @ fname
                                 @ ''. Please provide a URL to download it.'')), w))
      else if given url_opt then
        let url = text_of url_opt in
        case url_pathname rt url of
          None \<Rightarrow> (Failed (failure ''Invalid URL''), w)
        | Some pathname \<Rightarrow>
            let filepath = path_join [downloadDir rt, url_filename pathname] in
            if \<not> existsSync (disk w) filepath
            then after_download filepath (await_download url filepath maxSizeMB events w)
            else (Found filepath, w)
      else (Failed (failure ''Either filename or url must be provided''), w))"

text \<open>\<open>readDocumentPages(filename, url, pageOptions, maxSizeMB)\<close>\<close>

definition readDocumentPages ::
  "runtime \<Rightarrow> event list \<Rightarrow> world \<Rightarrow> string option \<Rightarrow> string option \<Rightarrow> PageOptions \<Rightarrow> nat
   \<Rightarrow> DownloadResult completion \<times> world" where
  "readDocumentPages rt events w fname_opt url_opt pageOptions maxSizeMB =
     (let r = resolve_file rt events w fname_opt url_opt maxSizeMB in
      case fst r of
        Hangs \<Rightarrow> (NoReturn, snd r)
      | Failed res \<Rightarrow> (Returned res, snd r)
      | Found filepath \<Rightarrow>
          if filepath = [] then (Returned (failure ''Could not determine file path''), snd r)
          else
            let ext = toLowerCase (path_extname filepath) in
            if ext \<noteq> ''.pdf''
            then (Returned (failure (''This tool only supports PDF files. File type: '' @ ext)),
                  snd r)
            else case statSync_size rt (disk (snd r)) filepath of
                   Inl msg \<Rightarrow> (Returned (failure msg), snd r)
                 | Inr sz \<Rightarrow>
                     let result = extractPdfText rt (disk (snd r)) filepath (Some pageOptions) in
                     (Returned \<lparr>success = True, content = Some (pdf_text result),
                                files = None, error = None,
                                file_metadata = Some \<lparr>filename = path_basename filepath,
                                  size_bytes = sz, file_type = ''pdf'',
                                  page_count = Some (totalPages result),
                                  extracted = Some (extractedPages result)\<rparr>\<rparr>, snd r))"


text \<open>The downloads that were completed, among the calls of the log.\<close>

definition completed :: "world \<Rightarrow> nat" where
  "completed w = length (filter (\<lambda>e. snd e = Resolved) (fetch_log w))"





definition words_a :: "nat \<Rightarrow> string" where
  "words_a n = concat (replicate n ''a '')"

definition quote_row :: jsval where
  "quote_row = JObj [(''symbol'', JStr ''TCS''), (''open'', JNum ''3490.5''), (''high'', JNum ''3512''),
     (''low'', JNum ''3481.25''), (''close'', JNum ''3500''), (''volume'', JNum ''1200345''),
     (''vwap'', JNum ''3499.1''), (''remarks'', JStr (words_a 3600))]"

definition no_options :: LimitOptions where
  "no_options = \<lparr>maxItems = None, fields_opt = None, summary = None\<rparr>"

definition quote_doc :: jsval where
  "quote_doc = JObj [(''symbol'', JStr ''TCS''), (''price'', JNum ''3500.5''),
     (''tags'', JArr [JStr ''large cap'', JNull])]"




definition summary_only :: LimitOptions where
  "summary_only = \<lparr>maxItems = None, fields_opt = None, summary = Some True\<rparr>"

definition long_note_list :: jsval where
  "long_note_list = JArr [JStr (words_a 3600)]"

definition sample_rows :: "nat \<Rightarrow> jsval list" where
  "sample_rows n = [JObj [(''symbol'', JStr ''TCS'')], JNum ''2'', JStr (words_a n),
     JStr (words_a 3600)]"

text \<open>A runtime, a file system and requests for the examples about the document handler.\<close>

definition five_pages :: TextResult where
  "five_pages = \<lparr>full_text = ''alpha beta gamma delta omega'',
                  page_texts = [''alpha'', ''beta'', ''gamma'', ''delta'', ''omega'']\<rparr>"

definition demo_runtime :: runtime where
  "demo_runtime =
     \<lparr>cwd = ''/srv/app'',
      url_pathname = (\<lambda>u. if u = ''https://example.com/docs/rhp.pdf'' then Some ''/docs/rhp.pdf''
                          else if u = ''https://example.com/docs/new.pdf'' then Some ''/docs/new.pdf''
                          else None),
      pdf_getText = (\<lambda>bytes. if bytes = ''%PDF five pages'' then Inr five_pages
                              else Inl ''Invalid PDF structure''),
      unzip = (\<lambda>t zipPath extractPath. (False, t)),
      dir_size = 4096\<rparr>"

definition demo_disk :: node where
  "demo_disk =
     Dir [(''srv'', Dir [(''app'', Dir [(''downloads'', Dir [(''documents'',
       Dir [(''rhp.pdf'', File ''%PDF five pages''),
            (''broken.pdf'', File ''not a pdf''),
            (''report.zip'', File ''PK'')])])])])]"

definition rhp_path :: string where
  "rhp_path = ''/srv/app/downloads/documents/rhp.pdf''"

definition broken_path :: string where
  "broken_path = ''/srv/app/downloads/documents/broken.pdf''"

definition new_path :: string where
  "new_path = ''/srv/app/downloads/documents/new.pdf''"

definition whole_range :: PageOptions where
  "whole_range = \<lparr>startPage = Some 0, endPage = Some 10000, pages = None\<rparr>"

definition open_range :: PageOptions where
  "open_range = \<lparr>startPage = Some 4, endPage = Some 0, pages = None\<rparr>"

definition page_heading :: "string \<Rightarrow> string" where
  "page_heading n = [CHR 0x0A, CHR 0x0A] @ ''--- PAGE '' @ n @ '' ---'' @ [CHR 0x0A, CHR 0x0A]"

definition stalled_download :: "event list" where
  "stalled_download = [Response 200 None (Some 1000), Data ''%PDF-1.7 partial'', Timeout]"


definition demo_world :: world where
  "demo_world = \<lparr>disk = demo_disk, fetch_log = []\<rparr>"

definition report_path :: string where
  "report_path = ''/srv/app/downloads/documents/report.zip''"














lemma split_ws_Nil: "split_ws [] = [[]]"
  by (simp add: split_ws.simps)

lemma len_split_nonws: "\<not> isWs c \<Longrightarrow> length (split_ws (c # s)) = length (split_ws s)"
proof -
  assume c: "\<not> isWs c"
  show ?thesis
  proof (cases "dropWhile (\<lambda>c. \<not> isWs c) s")
    case Nil
    then show ?thesis
      using c by (simp add: Nil split_ws.simps [of "c # s"] split_ws.simps [of s])
  next
    case (Cons x r)
    then show ?thesis
      using c by (simp add: Cons split_ws.simps [of "c # s"] split_ws.simps [of s])
  qed
qed

lemma len_split_ws: "isWs c \<Longrightarrow> length (split_ws (c # s)) = Suc (length (split_ws (dropWhile isWs s)))"
  by (subst split_ws.simps) simp

lemma dropWhile_id: "t \<noteq> [] \<Longrightarrow> \<not> P (hd t) \<Longrightarrow> dropWhile P t = t"
  by (cases t) auto

lemma len_split_words_a:
  "t \<noteq> [] \<Longrightarrow> \<not> isWs (hd t) \<Longrightarrow> length (split_ws (words_a n @ t)) = n + length (split_ws t)"
proof (induction n)
  case 0
  then show ?case by (simp add: words_a_def)
next
  case (Suc n)
  have a: "\<not> isWs CHR ''a''" and b: "isWs CHR '' ''"
    by (simp_all add: isWs_def)
  have nz: "words_a n @ t \<noteq> []" and hd: "\<not> isWs (hd (words_a n @ t))"
    using Suc.prems a by (cases n; simp add: words_a_def)+
  have "words_a (Suc n) @ t = CHR ''a'' # CHR '' '' # (words_a n @ t)"
    by (simp add: words_a_def)
  then show ?case
    using Suc a b dropWhile_id [of "words_a n @ t" isWs, OF nz hd]
    by (simp add: len_split_nonws len_split_ws)
qed

lemma trim_id: "s \<noteq> [] \<Longrightarrow> \<not> isWs (hd s) \<Longrightarrow> \<not> isWs (last s) \<Longrightarrow> trim s = s"
proof -
  assume s: "s \<noteq> []" and h: "\<not> isWs (hd s)" and l: "\<not> isWs (last s)"
  have "dropWhile isWs s = s" using s h by (rule dropWhile_id)
  moreover have "dropWhile isWs (rev s) = rev s"
    using s l by (intro dropWhile_id) (simp_all add: hd_rev)
  ultimately show ?thesis by (simp add: trim_def)
qed

lemma countWords_eq:
  "s \<noteq> [] \<Longrightarrow> \<not> isWs (hd s) \<Longrightarrow> \<not> isWs (last s) \<Longrightarrow> countWords s = length (split_ws s)"
  by (simp add: countWords_def trim_id)

lemma quote_words_a: "concat (map quote_char (words_a n)) = words_a n"
  by (induction n) (simp_all add: words_a_def quote_char_def)

lemmas count_eval = wrap_def quote_words_a countWords_eq len_split_nonws len_split_ws
  len_split_words_a split_ws_Nil isWs_def quote_def quote_char_def

lemma ser_None_iff: "ser gap ind v = None \<longleftrightarrow> v = JUndefined"
  by (cases v) auto














section \<open>The words of a truncated text\<close>

lemma digit_not_ws: "\<not> isWs (digit d)"
proof -
  have "\<forall>c\<in>set ''0123456789''. \<not> isWs c" by (simp add: isWs_def)
  moreover have "digit d \<in> set ''0123456789''"
    unfolding digit_def by (rule nth_mem) simp
  ultimately show ?thesis by blast
qed

lemma show_nat_word: "show_nat n \<noteq> [] \<and> (\<forall>c\<in>set (show_nat n). \<not> isWs c)"
proof (induction n rule: show_nat.induct)
  case (1 n)
  show ?case
  proof (cases "n < 10")
    case True
    then show ?thesis by (subst (1 2) show_nat.simps) (simp add: digit_not_ws)
  next
    case False
    then show ?thesis using 1 by (subst (1 2) show_nat.simps) (auto simp: digit_not_ws)
  qed
qed

lemma split_word:
  assumes "\<forall>x\<in>set w. \<not> isWs x" and "isWs c"
  shows "split_ws (w @ c # r) = w # split_ws (dropWhile isWs r)"
proof -
  have "dropWhile (\<lambda>c. \<not> isWs c) (w @ c # r) = c # r"
    using assms by (simp add: dropWhile_append2)
  moreover have "takeWhile (\<lambda>c. \<not> isWs c) (w @ c # r) = w"
    using assms by (simp add: takeWhile_append2)
  ultimately show ?thesis by (subst split_ws.simps) simp
qed

lemma words_free: "w \<in> set (split_ws s) \<Longrightarrow> x \<in> set w \<Longrightarrow> \<not> isWs x"
proof (induction s arbitrary: w rule: split_ws.induct)
  case (1 s)
  show ?case
  proof (cases "dropWhile (\<lambda>c. \<not> isWs c) s")
    case Nil
    have "split_ws s = [s]" by (subst split_ws.simps) (simp only: Nil list.case)
    moreover have "\<forall>c\<in>set s. \<not> isWs c" using Nil by (simp add: dropWhile_eq_Nil_conv)
    ultimately show ?thesis using 1(2,3) by simp
  next
    case (Cons c r)
    then have "split_ws s = takeWhile (\<lambda>c. \<not> isWs c) s # split_ws (dropWhile isWs r)"
      by (subst split_ws.simps) simp
    then consider "w = takeWhile (\<lambda>c. \<not> isWs c) s" | "w \<in> set (split_ws (dropWhile isWs r))"
      using 1(2) by auto
    then show ?thesis
    proof cases
      case 1
      then show ?thesis using \<open>x \<in> set w\<close> by (auto dest: set_takeWhileD)
    next
      case 2
      then show ?thesis using "1.IH" [OF Cons] \<open>x \<in> set w\<close> by blast
    qed
  qed
qed

lemma words_nonempty:
  "s \<noteq> [] \<Longrightarrow> \<not> isWs (hd s) \<Longrightarrow> \<not> isWs (last s) \<Longrightarrow> [] \<notin> set (split_ws s)"
proof (induction s rule: split_ws.induct)
  case (1 s)
  show ?case
  proof (cases "dropWhile (\<lambda>c. \<not> isWs c) s")
    case Nil
    have "split_ws s = [s]" by (subst split_ws.simps) (simp only: Nil list.case)
    then show ?thesis using 1(2) by simp
  next
    case (Cons c r)
    have split: "split_ws s = takeWhile (\<lambda>c. \<not> isWs c) s # split_ws (dropWhile isWs r)"
      using Cons by (subst split_ws.simps) simp
    have first: "takeWhile (\<lambda>c. \<not> isWs c) s \<noteq> []"
      using 1(2,3) by (cases s) auto
    have s: "s = takeWhile (\<lambda>c. \<not> isWs c) s @ c # r"
      using Cons by (metis takeWhile_dropWhile_id)
    have c: "isWs c"
      using Cons by (metis hd_dropWhile list.distinct(1) list.sel(1))
    have r: "r \<noteq> []"
    proof
      assume "r = []"
      then have "last s = c" using s by (metis last_snoc)
      then show False using c 1(4) by simp
    qed
    then have lastr: "last r = last s" using s by (metis last_appendR last_ConsR list.distinct(1))
    let ?r' = "dropWhile isWs r"
    have "last r \<in> set r" using r by simp
    then have r': "?r' \<noteq> []"
      using lastr 1(4) by (auto simp: dropWhile_eq_Nil_conv)
    then have "\<not> isWs (hd ?r')" by (rule hd_dropWhile)
    moreover have "last ?r' = last r"
      using r' by (metis last_appendR takeWhile_dropWhile_id)
    ultimately have "[] \<notin> set (split_ws ?r')"
      using "1.IH" [OF Cons] r' lastr 1(4) by simp
    then show ?thesis using split first by simp
  qed
qed

lemma trim_shape: "trim s = [] \<or> (\<not> isWs (hd (trim s)) \<and> \<not> isWs (last (trim s)))"
proof (cases "dropWhile isWs s = []")
  case True
  have "trim s = []" by (simp only: trim_def True) simp
  then show ?thesis by simp
next
  case False
  let ?u = "dropWhile isWs s"
  let ?v = "dropWhile isWs (rev ?u)"
  have hu: "\<not> isWs (hd ?u)" using False by (rule hd_dropWhile)
  have "hd ?u \<in> set (rev ?u)" using False by simp
  then have v: "?v \<noteq> []" using hu by (auto simp: dropWhile_eq_Nil_conv)
  then have hv: "\<not> isWs (hd ?v)" by (rule hd_dropWhile)
  have "last ?v = last (rev ?u)"
    using v by (metis last_appendR takeWhile_dropWhile_id)
  then have "last ?v = hd ?u" using False by (simp add: last_rev)
  then have "hd (rev ?v) = hd ?u" using v by (simp add: hd_rev)
  moreover have "last (rev ?v) = hd ?v" using v by (simp add: last_rev)
  ultimately show ?thesis using hu hv by (simp add: trim_def)
qed

lemma split_joined:
  assumes "ws \<noteq> []" and "\<forall>w\<in>set ws. w \<noteq> [] \<and> (\<forall>x\<in>set w. \<not> isWs x)"
    and "t \<noteq> []" and "\<not> isWs (hd t)"
  shows "length (split_ws (join '' '' ws @ CHR 0x0A # CHR 0x0A # t))
         = length ws + length (split_ws t)"
  using assms(1,2)
proof (induction ws)
  case Nil
  then show ?case by simp
next
  case (Cons w ws)
  note word = Cons.prems(2)
  show ?case
  proof (cases ws)
    case Nil
    have "split_ws (w @ CHR 0x0A # CHR 0x0A # t) = w # split_ws (dropWhile isWs (CHR 0x0A # t))"
      using word by (intro split_word) (simp_all add: isWs_def)
    moreover have "dropWhile isWs (CHR 0x0A # t) = t"
      using assms(3,4) by (simp add: isWs_def dropWhile_id)
    ultimately show ?thesis using Nil by simp
  next
    case (Cons y ys)
    let ?rest = "join '' '' (y # ys) @ CHR 0x0A # CHR 0x0A # t"
    have y: "y \<noteq> []" "\<not> isWs (hd y)"
      using word Cons by (cases y; simp)+
    have "hd ?rest = hd y" and "?rest \<noteq> []"
      using y by (cases ys; cases y; simp)+
    then have "dropWhile isWs ?rest = ?rest"
      using y by (intro dropWhile_id) simp_all
    moreover have "split_ws (w @ CHR '' '' # ?rest) = w # split_ws (dropWhile isWs ?rest)"
      using word by (intro split_word) (simp_all add: isWs_def)
    moreover have "length (split_ws ?rest) = length ws + length (split_ws t)"
      using Cons.IH word Cons by simp
    ultimately show ?thesis using Cons by simp
  qed
qed

lemma marker_words:
  "length (split_ws (''[... '' @ show_nat k
     @ '' more words truncated. Use filters to get specific data.]'')) = 11"
proof -
  let ?tail = "''more words truncated. Use filters to get specific data.]''"
  have "split_ws (''[...'' @ CHR '' '' # (show_nat k @ CHR '' '' # ?tail))
        = ''[...'' # split_ws (dropWhile isWs (show_nat k @ CHR '' '' # ?tail))"
    by (intro split_word) (simp_all add: isWs_def)
  moreover have "dropWhile isWs (show_nat k @ CHR '' '' # ?tail) = show_nat k @ CHR '' '' # ?tail"
    using show_nat_word [of k] by (intro dropWhile_id) (auto simp: hd_append)
  moreover have "split_ws (show_nat k @ CHR '' '' # ?tail)
        = show_nat k # split_ws (dropWhile isWs ?tail)"
    using show_nat_word [of k] by (intro split_word) (simp_all add: isWs_def)
  moreover have "length (split_ws (dropWhile isWs ?tail)) = 9"
    by (simp add: count_eval)
  ultimately show ?thesis by simp
qed


lemma truncation_marker_words:
  assumes "ws \<noteq> []" and "\<forall>w\<in>set ws. w \<noteq> [] \<and> (\<forall>x\<in>set w. \<not> isWs x)"
  shows "countWords (join '' '' ws @ truncation_marker k) = length ws + 11"
proof -
  let ?t = "''[... '' @ show_nat k @ '' more words truncated. Use filters to get specific data.]''"
  let ?s = "join '' '' ws @ CHR 0x0A # CHR 0x0A # ?t"
  have s: "join '' '' ws @ truncation_marker k = ?s" by (simp add: truncation_marker_def)
  obtain w rest where ws: "ws = w # rest" using assms(1) by (cases ws) auto
  then have w: "w \<noteq> []" "\<not> isWs (hd w)" using assms(2) by (cases w; simp)+
  have "hd ?s = hd w" using ws w by (cases rest; cases w; simp)
  then have "\<not> isWs (hd ?s)" using w by simp
  moreover have "last ?s = CHR '']''" by simp
  then have "\<not> isWs (last ?s)" by (simp add: isWs_def)
  ultimately have "countWords ?s = length (split_ws ?s)"
    by (intro countWords_eq) simp_all
  also have "\<dots> = length ws + length (split_ws ?t)"
    using assms by (intro split_joined) (simp_all add: isWs_def)
  finally have "countWords ?s = length ws + length (split_ws ?t)" .
  then show ?thesis by (simp only: s marker_words)
qed

lemma truncateToWords_count:
  assumes "n < countWords s" and "0 < n"
  shows "countWords (truncateToWords s n) = n + 11"
proof -
  let ?words = "split_ws (trim s)"
  have len: "n < length ?words" using assms(1) by (simp add: countWords_def)
  then have "trim s \<noteq> []" using assms(2) by (auto simp: split_ws_Nil)
  then have shape: "\<not> isWs (hd (trim s))" "\<not> isWs (last (trim s))"
    using trim_shape [of s] by auto
  have proper: "\<forall>w\<in>set ?words. w \<noteq> [] \<and> (\<forall>x\<in>set w. \<not> isWs x)"
    using words_nonempty [OF \<open>trim s \<noteq> []\<close> shape] words_free [of _ "trim s"] by metis
  have "take n ?words \<noteq> []" using len assms(2) by auto
  moreover have "\<forall>w\<in>set (take n ?words). w \<noteq> [] \<and> (\<forall>x\<in>set w. \<not> isWs x)"
    using proper by (meson in_set_takeD)
  ultimately have "countWords (join '' '' (take n ?words) @ truncation_marker (length ?words - n))
      = length (take n ?words) + 11"
    by (rule truncation_marker_words)
  then show ?thesis using len by (simp add: truncateToWords_def Let_def)
qed

lemma limit_array_is_array: "\<exists>ys. fst (limit_array xs options) = JArr ys"
  by (simp add: limit_array_def limitArrayData_def Let_def split: option.splits)

section \<open>Rounding\<close>

text \<open>
  The rounding differs from the rational it rounds by at most one part in \<open>2\<^sup>5\<^sup>3\<close>, so that
  the floor of the quotient of quotients \<open>3500 / (w / 3)\<close> is the floor of \<open>10500 / w\<close>, or one
  less when \<open>w\<close> divides 10500.
\<close>

lemma rat_of_int_mono: "(a::int) \<le> b \<Longrightarrow> (of_int a :: rat) \<le> of_int b"
  by simp

lemma rne_error: "\<bar>of_int (rne x) - x\<bar> \<le> 1 / 2"
proof -
  define f where "f = \<lfloor>x\<rfloor>"
  have "of_int f \<le> x" and "x < of_int f + 1" unfolding f_def by linarith+
  then show ?thesis
    unfolding rne_def Let_def f_def [symmetric] by (auto simp: abs_if)
qed

lemma binary_exponent_bounds:
  assumes "0 < q"
  shows "2 powi (binary_exponent q) \<le> q \<and> q < 2 powi (binary_exponent q + 1)"
proof (cases "1 \<le> q")
  case True
  define n where "n = \<lfloor>q\<rfloor>"
  have n: "0 < n" using True by (simp add: n_def)
  have q: "of_int n \<le> q" "q < of_int n + 1" by (simp_all add: n_def) linarith
  have e: "binary_exponent q = bitlen n - 1" using True by (simp add: binary_exponent_def n_def)
  have b: "2 ^ nat (bitlen n - 1) \<le> n" "n < 2 ^ nat (bitlen n)"
    using bitlen_bounds [OF n] by simp_all
  have pos: "0 < bitlen n"
  proof (rule ccontr)
    assume "\<not> 0 < bitlen n"
    then have "nat (bitlen n) = 0" by simp
    then show False using b(2) n by simp
  qed
  have lo: "(2::rat) powi (bitlen n - 1) \<le> of_int n"
  proof -
    have "(2::rat) powi (bitlen n - 1) = 2 ^ nat (bitlen n - 1)"
      using pos by (simp add: power_int_def)
    also have "\<dots> = of_int (2 ^ nat (bitlen n - 1))" by simp
    also have "\<dots> \<le> of_int n" using b(1) by (simp only: of_int_le_iff)
    finally show ?thesis .
  qed
  have hi: "of_int n + 1 \<le> (2::rat) powi (bitlen n)"
  proof -
    have "n + 1 \<le> 2 ^ nat (bitlen n)" using b(2) by simp
    then have "(of_int (n + 1) :: rat) \<le> of_int (2 ^ nat (bitlen n))"
      by (simp only: of_int_le_iff)
    also have "\<dots> = 2 powi (bitlen n)" using pos by (simp add: power_int_def)
    finally show ?thesis by simp
  qed
  show ?thesis using lo hi q by (simp add: e)
next
  case False
  define n where "n = \<lceil>1 / q\<rceil> - 1"
  have q1: "1 < 1 / q" using False assms by (simp add: field_simps)
  then have n: "0 < n" unfolding n_def by linarith
  have r: "of_int n < 1 / q" "1 / q \<le> of_int n + 1" unfolding n_def by linarith+
  have e: "binary_exponent q = - bitlen n" using False by (simp add: binary_exponent_def n_def)
  have b: "2 ^ nat (bitlen n - 1) \<le> n" "n < 2 ^ nat (bitlen n)"
    using bitlen_bounds [OF n] by simp_all
  have pos: "0 < bitlen n"
  proof (rule ccontr)
    assume "\<not> 0 < bitlen n"
    then have "nat (bitlen n) = 0" by simp
    then show False using b(2) n by simp
  qed
  have "(2::rat) ^ nat (bitlen n - 1) \<le> of_int n"
    using rat_of_int_mono [OF b(1)] by (simp only: of_int_power of_int_numeral)
  then have "(2::rat) ^ nat (bitlen n - 1) < 1 / q" using r(1) by (rule le_less_trans)
  then have "q < 1 / 2 ^ nat (bitlen n - 1)"
    using assms by (simp add: field_simps)
  moreover have "(2::rat) powi (- bitlen n + 1) = 1 / 2 ^ nat (bitlen n - 1)"
  proof -
    have "- bitlen n + 1 = - int (nat (bitlen n - 1))" using pos by simp
    then show ?thesis by (simp only: power_int_minus power_int_of_nat) (simp add: field_simps)
  qed
  ultimately have hi: "q < 2 powi (- bitlen n + 1)" by simp
  have "n + 1 \<le> 2 ^ nat (bitlen n)" using b(2) by simp
  then have "of_int n + 1 \<le> (2::rat) ^ nat (bitlen n)"
    using rat_of_int_mono [of "n + 1" "2 ^ nat (bitlen n)"]
    by (simp only: of_int_power of_int_numeral of_int_add of_int_1)
  with r(2) have "1 / q \<le> 2 ^ nat (bitlen n)" by (rule order_trans)
  then have "1 / 2 ^ nat (bitlen n) \<le> q"
    using assms by (simp add: field_simps)
  moreover have "(2::rat) powi (- bitlen n) = 1 / 2 ^ nat (bitlen n)"
  proof -
    have "- bitlen n = - int (nat (bitlen n))" using pos by simp
    then show ?thesis by (simp only: power_int_minus power_int_of_nat) (simp add: field_simps)
  qed
  ultimately have lo: "2 powi (- bitlen n) \<le> q" by simp
  show ?thesis using lo hi by (simp add: e)
qed

lemma fl_pos_error:
  assumes "0 < q"
  shows "\<bar>fl_pos q - q\<bar> \<le> q / 2 ^ 53"
proof -
  define e where "e = binary_exponent q"
  define ulp :: rat where "ulp = 2 powi (e - 52)"
  have ulp: "0 < ulp" by (simp add: ulp_def)
  have e: "2 powi e \<le> q" using binary_exponent_bounds [OF assms] by (simp add: e_def)
  have "ulp = 2 powi e / 2 powi 52" unfolding ulp_def by (rule power_int_diff) simp
  then have half: "ulp / 2 = 2 powi e / 2 ^ 53" by simp
  have "fl_pos q - q = (of_int (rne (q / ulp)) - q / ulp) * ulp"
    using ulp by (simp add: fl_pos_def Let_def e_def ulp_def field_simps)
  then have "\<bar>fl_pos q - q\<bar> = \<bar>of_int (rne (q / ulp)) - q / ulp\<bar> * ulp"
    using ulp by (simp add: abs_mult)
  also have "\<dots> \<le> (1 / 2) * ulp"
    using rne_error [of "q / ulp"] ulp by (intro mult_right_mono) simp_all
  also have "\<dots> = 2 powi e / 2 ^ 53" using half by simp
  also have "\<dots> \<le> q / 2 ^ 53" using e by (intro divide_right_mono) simp_all
  finally show ?thesis .
qed

lemma fl_relative:
  assumes "0 < q"
  shows "q * (1 - 1 / 2 ^ 53) \<le> fl q \<and> fl q \<le> q * (1 + 1 / 2 ^ 53)"
proof -
  define c where "c = q / 2 ^ 53"
  have "fl q = fl_pos q" using assms by (simp add: fl_def)
  then have a: "\<bar>fl q - q\<bar> \<le> c"
    using fl_pos_error [OF assms] by (simp only: c_def)
  have "fl q - q \<le> c" using a by (rule abs_le_D1)
  moreover have "- (fl q - q) \<le> c" using a by (rule abs_le_D2)
  moreover have "q * (1 - 1 / 2 ^ 53) = q - c" "q * (1 + 1 / 2 ^ 53) = q + c"
    by (simp_all add: c_def algebra_simps)
  ultimately show ?thesis by (simp only:) linarith
qed

lemma two_roundings:
  fixes a b d b1 q :: rat
  assumes "0 < a" and "0 < b" and "0 < d" and "d \<le> 1 / 4"
    and "b * (1 - d) \<le> b1" and "b1 \<le> b * (1 + d)"
    and "(a / b1) * (1 - d) \<le> q" and "q \<le> (a / b1) * (1 + d)"
  shows "(a / b) * (1 - 2 * d) \<le> q \<and> q \<le> (a / b) * (1 + 3 * d)"
proof -
  define x where "x = a / b"
  have x: "0 < x" using assms(1,2) by (simp add: x_def)
  have "d * d \<le> d * (1 / 4)"
    using assms(3,4) by (intro mult_left_mono) simp_all
  then have dd: "3 * (d * d) \<le> d" and dd0: "0 \<le> d * d" using assms(3) by simp_all
  have lo_pos: "0 < b * (1 - d)" using assms(2,3,4) by simp
  then have b1: "0 < b1" using assms(5) by linarith
  have hi_pos: "0 < b * (1 + d)" using assms(2,3) by (simp add: pos_add_strict)
  have "a / b1 \<le> a / (b * (1 - d))"
    using assms(1,5) lo_pos b1 by (intro divide_left_mono) simp_all
  then have y_hi: "a / b1 \<le> x / (1 - d)" by (simp add: x_def)
  have "a / (b * (1 + d)) \<le> a / b1"
    using assms(1,6) hi_pos b1 by (intro divide_left_mono) simp_all
  then have y_lo: "x / (1 + d) \<le> a / b1" by (simp add: x_def)
  have one_minus: "0 < 1 - d" and one_plus: "0 < 1 + d" using assms(3,4) by simp_all
  have "q \<le> (x / (1 - d)) * (1 + d)"
    using mult_right_mono [OF y_hi, of "1 + d"] assms(8) one_plus by simp
  also have "\<dots> = x * ((1 + d) / (1 - d))" by simp
  also have "\<dots> \<le> x * (1 + 3 * d)"
  proof (rule mult_left_mono)
    have "(1 + 3 * d) * (1 - d) = 1 + 2 * d - 3 * (d * d)" by (simp add: algebra_simps)
    then have "1 + d \<le> (1 + 3 * d) * (1 - d)" using dd by linarith
    then show "(1 + d) / (1 - d) \<le> 1 + 3 * d"
      using one_minus by (simp add: pos_divide_le_eq)
    show "0 \<le> x" using x by simp
  qed
  finally have hi: "q \<le> x * (1 + 3 * d)" .
  have "x * (1 - 2 * d) \<le> x * ((1 - d) / (1 + d))"
  proof (rule mult_left_mono)
    have "(1 - 2 * d) * (1 + d) = 1 - d - 2 * (d * d)" by (simp add: algebra_simps)
    then have "(1 - 2 * d) * (1 + d) \<le> 1 - d" using dd0 by linarith
    then show "1 - 2 * d \<le> (1 - d) / (1 + d)"
      using one_plus by (simp add: pos_le_divide_eq)
    show "0 \<le> x" using x by simp
  qed
  also have "\<dots> = (x / (1 + d)) * (1 - d)" by simp
  also have "\<dots> \<le> (a / b1) * (1 - d)"
    using mult_right_mono [OF y_lo, of "1 - d"] one_minus by simp
  also have "\<dots> \<le> q" by (rule assms(7))
  finally have lo: "x * (1 - 2 * d) \<le> q" .
  show ?thesis using lo hi by (simp add: x_def)
qed

lemma quotient_of_quotient:
  assumes "0 < a" and "0 < b"
  shows "(a / b) * (1 - 2 / 2 ^ 53) \<le> js_div a (fl b)
       \<and> js_div a (fl b) \<le> (a / b) * (1 + 3 / 2 ^ 53)"
proof -
  have b: "b * (1 - 1 / 2 ^ 53) \<le> fl b" "fl b \<le> b * (1 + 1 / 2 ^ 53)"
    using fl_relative [OF assms(2)] by simp_all
  moreover have "0 < b * (1 - 1 / 2 ^ 53)" using assms(2) by simp
  ultimately have "0 < fl b" by linarith
  then have "0 < a / fl b" using assms(1) by simp
  then have q: "(a / fl b) * (1 - 1 / 2 ^ 53) \<le> fl (a / fl b)"
    "fl (a / fl b) \<le> (a / fl b) * (1 + 1 / 2 ^ 53)"
    using fl_relative [of "a / fl b"] by simp_all
  have "(a / b) * (1 - 2 * (1 / 2 ^ 53)) \<le> fl (a / fl b)
      \<and> fl (a / fl b) \<le> (a / b) * (1 + 3 * (1 / 2 ^ 53))"
    using assms b q by (intro two_roundings [where ?b1.0 = "fl b"]) simp_all
  then show ?thesis by (simp add: js_div_def)
qed

lemma recommended_bounds:
  fixes w :: nat
  assumes "0 < w"
  shows "10500 div int w - 1 \<le> \<lfloor>js_div 3500 (js_div (of_nat w) 3)\<rfloor>
       \<and> \<lfloor>js_div 3500 (js_div (of_nat w) 3)\<rfloor> \<le> 10500 div int w
       \<and> (\<not> int w dvd 10500
            \<longrightarrow> \<lfloor>js_div 3500 (js_div (of_nat w) 3)\<rfloor> = 10500 div int w)"
proof -
  define W :: rat where "W = of_nat w"
  define iw where "iw = 1 / W"
  define x where "x = 10500 * iw"
  define q where "q = js_div 3500 (js_div W 3)"
  define d where "d = 10500 div int w"
  define r where "r = 10500 mod int w"
  define D :: rat where "D = of_int d"
  define rw where "rw = of_int r / W"
  define c2 where "c2 = x * (2 / 2 ^ 53)"
  define c3 where "c3 = x * (3 / 2 ^ 53)"
  have W: "1 \<le> W" using assms by (simp add: W_def)
  then have iw: "0 < iw" "iw \<le> 1" by (simp_all add: iw_def)
  have "(3500::rat) / (W / 3) = x" by (simp add: x_def iw_def)
  moreover have "js_div W 3 = fl (W / 3)" by (simp add: js_div_def)
  ultimately have "x * (1 - 2 / 2 ^ 53) \<le> q \<and> q \<le> x * (1 + 3 / 2 ^ 53)"
    using quotient_of_quotient [of 3500 "W / 3"] W by (simp add: q_def)
  moreover have "x * (1 - 2 / 2 ^ 53) = x - c2" "x * (1 + 3 / 2 ^ 53) = x + c3"
    by (simp_all add: c2_def c3_def algebra_simps)
  ultimately have q: "x - c2 \<le> q" "q \<le> x + c3" by (simp_all only:)
  have "c2 = iw * (21000 / 2 ^ 53)" "c3 = iw * (31500 / 2 ^ 53)"
    by (simp_all add: c2_def c3_def x_def)
  moreover have "iw * (21000 / 2 ^ 53) < iw * 1" "iw * (31500 / 2 ^ 53) < iw * 1"
    using iw(1) by (simp_all only: mult_less_cancel_left_pos) simp_all
  ultimately have c: "c2 < iw" "c3 < iw" by simp_all
  have r: "0 \<le> r" "r < int w" using assms by (simp_all add: r_def)
  have "10500 = d * int w + r" by (simp add: d_def r_def)
  then have "(of_int 10500 :: rat) = of_int (d * int w + r)" by (simp only:)
  then have "(10500::rat) = D * W + of_int r" by (simp add: D_def W_def)
  then have "10500 / W = (D * W + of_int r) / W" by (simp only:)
  then have x: "x = D + rw" using W by (simp add: x_def iw_def rw_def field_simps)
  have rw0: "0 \<le> rw" using r(1) W by (simp add: rw_def)
  have "r + 1 \<le> int w" using r(2) by simp
  then have "(of_int (r + 1) :: rat) \<le> of_int (int w)" by (rule rat_of_int_mono)
  then have "of_int r + 1 \<le> W" by (simp add: W_def)
  then have "(of_int r + 1) / W \<le> W / W" using W by (intro divide_right_mono) simp_all
  then have rw1: "rw + iw \<le> 1" using W by (simp add: rw_def iw_def add_divide_distrib)
  have upper: "q < D + 1" using q(2) x c(2) rw1 by linarith
  have lower: "D - 1 < q" using q(1) x c(1) rw0 iw(2) by linarith
  have "q < of_int (d + 1)" using upper by (simp add: D_def)
  then have "\<lfloor>q\<rfloor> < d + 1" by (simp only: floor_less_iff)
  then have le: "\<lfloor>q\<rfloor> \<le> d" by simp
  have "of_int (d - 1) \<le> q" using lower by (simp add: D_def)
  then have ge: "d - 1 \<le> \<lfloor>q\<rfloor>" by (simp only: le_floor_iff)
  have exact: "\<lfloor>q\<rfloor> = d" if "\<not> int w dvd 10500"
  proof -
    have "r \<noteq> 0" using that by (simp add: r_def dvd_eq_mod_eq_0)
    then have "1 \<le> r" using r(1) by simp
    then have "(of_int 1 :: rat) \<le> of_int r" by (rule rat_of_int_mono)
    then have "1 / W \<le> of_int r / W" using W by (intro divide_right_mono) simp_all
    then have "iw \<le> rw" by (simp add: iw_def rw_def)
    then have "D \<le> q" using q(1) x c(1) by linarith
    then have "of_int d \<le> q" by (simp add: D_def)
    then have "d \<le> \<lfloor>q\<rfloor>" by (simp only: le_floor_iff)
    then show ?thesis using le by simp
  qed
  show ?thesis using le ge exact by (simp add: q_def W_def d_def)
qed

section \<open>Claims about the response limiter\<close>

text \<open>
  Claim C1. A value whose JSON text (\<open>JSON.stringify(data, null, 2)\<close>) has at most 3500
  words is returned as it is: \<open>truncated\<close> is false, and neither a message nor metadata
  is attached. Every value other than \<open>undefined\<close> has a JSON text, and \<open>null\<close> is
  returned in the same way.
\<close>

theorem limitResponse_within_limit:
  assumes "stringify2 d = Some t" and "countWords t \<le> 3500"
  shows "limitResponse d options = Inr \<lparr>data = d, truncated = False, message = None, metadata = None\<rparr>"
  using assms by (simp add: limitResponse_def MAX_WORDS_def)

lemma countWords_pos: "0 < countWords s"
  unfolding countWords_def by (subst split_ws.simps) (simp split: list.splits)

text \<open>
  Claim C7, as amended. A non-empty list over the ceiling, governed without filter options,
  comes back with metadata in which \<open>exceedsLimit\<close> is true and the suggested fields are the
  first 7 available field names (none when the first item is not an object or array). The
  recommended \<open>maxItems\<close> is \<open>max(10, k)\<close>, hence at least 10, where \<open>k\<close> is the floor of
  \<open>3500 / (w / 3)\<close> computed in binary64 arithmetic and \<open>w\<close> is the word count of the JSON text
  of the first three items: \<open>k\<close> is the floor of \<open>10500 / w\<close> when \<open>w\<close> does not divide 10500, and
  that floor or one less when it does.
\<close>

theorem metadata_recommends_filters:
  assumes "xs \<noteq> []"
    and "stringify2 (JArr xs) = Some t"
    and "3500 < countWords t"
    and "\<not> hasFilters options"
  shows "\<exists>r m f. limitResponse (JArr xs) options = Inr r
           \<and> truncated r
           \<and> metadata r = Some m
           \<and> exceedsLimit m
           \<and> recommendedFilters m = Some f
           \<and> rf_maxItems f = max 10 \<lfloor>js_div 3500 (js_div (of_nat (countWords (stringify2_array (take 3 xs)))) 3)\<rfloor>
           \<and> max 10 (10500 div int (countWords (stringify2_array (take 3 xs))) - 1)
                 \<le> rf_maxItems f
           \<and> rf_maxItems f \<le> max 10 (10500 div int (countWords (stringify2_array (take 3 xs))))
           \<and> (\<not> int (countWords (stringify2_array (take 3 xs))) dvd 10500
                \<longrightarrow> rf_maxItems f
                    = max 10 (10500 div int (countWords (stringify2_array (take 3 xs)))))
           \<and> 10 \<le> rf_maxItems f
           \<and> suggestedFields f = map_option (take 7) (getAvailableFields (JArr xs))"
proof -
  define w where "w = countWords (stringify2_array (take 3 xs))"
  define k where "k = \<lfloor>js_div 3500 (js_div (of_nat w) 3)\<rfloor>"
  have "0 < w" unfolding w_def by (rule countWords_pos)
  then have k: "10500 div int w - 1 \<le> k" "k \<le> 10500 div int w"
    "\<not> int w dvd 10500 \<longrightarrow> k = 10500 div int w"
    using recommended_bounds [of w] by (simp_all add: k_def)
  obtain r m f where r: "limitResponse (JArr xs) options = Inr r" "truncated r"
    "metadata r = Some m" "exceedsLimit m" "recommendedFilters m = Some f"
    "rf_maxItems f = max 10 k"
    "suggestedFields f = map_option (take 7) (getAvailableFields (JArr xs))"
    using assms
    by (simp add: limitResponse_def metadata_response_def createResponseMetadata_def
        MAX_WORDS_def Let_def k_def w_def)
  have "max 10 (10500 div int w - 1) \<le> max 10 k" "max 10 k \<le> max 10 (10500 div int w)"
    "\<not> int w dvd 10500 \<longrightarrow> max 10 k = max 10 (10500 div int w)" "10 \<le> max 10 k"
    using k by auto
  then show ?thesis
    using r unfolding k_def w_def by (intro exI [of _ r] exI [of _ m] exI [of _ f]) simp
qed

lemma stringify2_defined: "v \<noteq> JUndefined \<Longrightarrow> \<exists>t. stringify2 v = Some t"
  using ser_None_iff [of "''  ''" "[]" v] by (auto simp: stringify2_def)


lemma count_quote_doc: "map_option countWords (stringify2 quote_doc) = Some 12"
  by (simp add: quote_doc_def stringify2_def count_eval)

theorem limitResponse_within_limit_witness:
  "(\<exists>t. stringify2 quote_doc = Some t \<and> countWords t \<le> 3500)
   \<and> limitResponse quote_doc no_options
       = Inr \<lparr>data = quote_doc, truncated = False, message = None, metadata = None\<rparr>"
proof -
  obtain t where t: "stringify2 quote_doc = Some t" and "countWords t = 12"
    using count_quote_doc by auto
  then have c: "countWords t \<le> 3500" by simp
  show ?thesis
    using t c limitResponse_within_limit [OF t c, of no_options] by blast
qed

lemma count_quote_rows: "map_option countWords (stringify2 (JArr [quote_row])) = Some 3620"
  by (simp add: quote_row_def stringify2_def count_eval)

lemma count_quote_sample: "countWords (stringify2_array [quote_row]) = 3620"
  by (simp add: quote_row_def stringify2_array_def count_eval)

lemma count_sample_rows:
  "map_option countWords (stringify2 (JArr (sample_rows n))) = Some (n + 3609)"
  by (simp add: sample_rows_def stringify2_def count_eval)

lemma count_sample: "countWords (stringify2_array (take 3 (sample_rows n))) = n + 8"
  by (simp add: sample_rows_def stringify2_array_def count_eval)

lemma not_filtered: "\<not> hasFilters no_options"
  by (simp add: hasFilters_def no_options_def)

text \<open>
  A list whose first three items have 24 words: 437 items are recommended. A list of one
  item of 3620 words: the floor is 2, and 10 items are recommended.
\<close>

theorem metadata_recommends_filters_witness:
  "sample_rows 16 \<noteq> []
   \<and> (\<exists>t. stringify2 (JArr (sample_rows 16)) = Some t \<and> 3500 < countWords t)
   \<and> \<not> hasFilters no_options
   \<and> countWords (stringify2_array (take 3 (sample_rows 16))) = 24
   \<and> \<not> (24::int) dvd 10500
   \<and> (\<exists>r m f. limitResponse (JArr (sample_rows 16)) no_options = Inr r
         \<and> truncated r \<and> metadata r = Some m \<and> exceedsLimit m
         \<and> recommendedFilters m = Some f
         \<and> rf_maxItems f = 437
         \<and> suggestedFields f = Some [''symbol''])
   \<and> (\<exists>t. stringify2 (JArr [quote_row]) = Some t \<and> 3500 < countWords t)
   \<and> (\<exists>r m f. limitResponse (JArr [quote_row]) no_options = Inr r
         \<and> truncated r \<and> metadata r = Some m \<and> exceedsLimit m
         \<and> recommendedFilters m = Some f
         \<and> rf_maxItems f = 10
         \<and> suggestedFields f = Some [''symbol'', ''open'', ''high'', ''low'', ''close'',
                                      ''volume'', ''vwap''])"
proof -
  obtain t where t: "stringify2 (JArr (sample_rows 16)) = Some t" and "countWords t = 3625"
    using count_sample_rows [of 16] by auto
  then have c: "3500 < countWords t" by simp
  have ne: "sample_rows 16 \<noteq> []" by (simp add: sample_rows_def)
  have w: "countWords (stringify2_array (take 3 (sample_rows 16))) = 24"
    using count_sample [of 16] by simp
  obtain r m f where r: "limitResponse (JArr (sample_rows 16)) no_options = Inr r"
    "truncated r" "metadata r = Some m" "exceedsLimit m" "recommendedFilters m = Some f"
    and mx: "\<not> int (countWords (stringify2_array (take 3 (sample_rows 16)))) dvd 10500
                \<longrightarrow> rf_maxItems f
                    = max 10 (10500 div int (countWords (stringify2_array
                        (take 3 (sample_rows 16)))))"
    and sf: "suggestedFields f = map_option (take 7) (getAvailableFields (JArr (sample_rows 16)))"
    using metadata_recommends_filters [OF ne t c not_filtered] by blast
  have "rf_maxItems f = 437" using mx by (simp add: w)
  moreover have "suggestedFields f = Some [''symbol'']"
    using sf by (simp add: getAvailableFields_def sample_rows_def)
  ultimately have first: "\<exists>r m f. limitResponse (JArr (sample_rows 16)) no_options = Inr r
         \<and> truncated r \<and> metadata r = Some m \<and> exceedsLimit m
         \<and> recommendedFilters m = Some f
         \<and> rf_maxItems f = 437
         \<and> suggestedFields f = Some [''symbol'']"
    using r by blast
  obtain t' where t': "stringify2 (JArr [quote_row]) = Some t'" and "countWords t' = 3620"
    using count_quote_rows by auto
  then have c': "3500 < countWords t'" by simp
  have ne': "[quote_row] \<noteq> []" by simp
  obtain r' m' f' where r': "limitResponse (JArr [quote_row]) no_options = Inr r'"
    "truncated r'" "metadata r' = Some m'" "exceedsLimit m'" "recommendedFilters m' = Some f'"
    and mx': "\<not> int (countWords (stringify2_array (take 3 [quote_row]))) dvd 10500
                \<longrightarrow> rf_maxItems f'
                    = max 10 (10500 div int (countWords (stringify2_array (take 3 [quote_row]))))"
    and sf': "suggestedFields f' = map_option (take 7) (getAvailableFields (JArr [quote_row]))"
    using metadata_recommends_filters [OF ne' t' c' not_filtered] by blast
  have "rf_maxItems f' = 10" using mx' by (simp add: count_quote_sample)
  moreover have "suggestedFields f'
      = Some [''symbol'', ''open'', ''high'', ''low'', ''close'', ''volume'', ''vwap'']"
    using sf' by (simp add: getAvailableFields_def quote_row_def)
  ultimately have second: "\<exists>r m f. limitResponse (JArr [quote_row]) no_options = Inr r
         \<and> truncated r \<and> metadata r = Some m \<and> exceedsLimit m
         \<and> recommendedFilters m = Some f
         \<and> rf_maxItems f = 10
         \<and> suggestedFields f = Some [''symbol'', ''open'', ''high'', ''low'', ''close'',
                                      ''volume'', ''vwap'']"
    using r' by blast
  have nd: "\<not> (24::int) dvd 10500" by simp
  show ?thesis
    using ne t c not_filtered w nd first t' c' second by blast
qed

lemma floor_at_25: "\<lfloor>js_div 3500 (js_div 25 3)\<rfloor> = 419"
  by code_simp

text \<open>
  The claim as stated, at a list whose first three items have 25 words: the floor of
  \<open>3500 / (25 / 3)\<close> is 420, and the code, which rounds \<open>25 / 3\<close> and then the quotient,
  recommends 419 items.
\<close>

theorem recommended_items_rounded_down:
  "countWords (stringify2_array (take 3 (sample_rows 17))) = 25
   \<and> (\<exists>t. stringify2 (JArr (sample_rows 17)) = Some t \<and> 3500 < countWords t)
   \<and> (\<exists>r m f. limitResponse (JArr (sample_rows 17)) no_options = Inr r
         \<and> metadata r = Some m \<and> recommendedFilters m = Some f \<and> rf_maxItems f = 419)
   \<and> max 10 \<lfloor>(3500::rat) / (25 / 3)\<rfloor> = 420"
proof -
  obtain t where t: "stringify2 (JArr (sample_rows 17)) = Some t" and n: "countWords t = 3626"
    using count_sample_rows [of 17] by auto
  have w: "countWords (stringify2_array (take 3 (sample_rows 17))) = 25"
    using count_sample [of 17] by simp
  have ne: "sample_rows 17 \<noteq> []" by (simp add: sample_rows_def)
  have "\<exists>r m f. limitResponse (JArr (sample_rows 17)) no_options = Inr r
         \<and> metadata r = Some m \<and> recommendedFilters m = Some f \<and> rf_maxItems f = 419"
    using t n ne not_filtered
    by (simp add: limitResponse_def metadata_response_def createResponseMetadata_def
        MAX_WORDS_def Let_def w floor_at_25)
  moreover have "max 10 \<lfloor>(3500::rat) / (25 / 3)\<rfloor> = 420" by simp
  ultimately show ?thesis using w t n by auto
qed

lemma count_long_note_list: "map_option countWords (stringify2 long_note_list) = Some 3603"
  by (simp add: long_note_list_def stringify2_def count_eval)

lemma count_summary: "countWords (createArraySummary long_note_list) = 3612"
  by (simp add: long_note_list_def createArraySummary_def stringify2_array_def count_eval show_nat.simps digit_def)

text \<open>
  Claim C3, at a failing input. The data is a list of one string of 3600 words and the
  only option is \<open>summary = true\<close>. The list is over the ceiling (3603 words), the governor
  returns the summary from inside the array branch, before the final check that truncates
  every other filtered result, and the summary carries the first three items whole: the
  payload has 3612 words, more than the ceiling with the marker of 11 words.
\<close>

theorem summary_not_truncated:
  "map_option countWords (stringify2 long_note_list) = Some 3603
   \<and> hasFilters summary_only
   \<and> limitResponse long_note_list summary_only
       = Inr \<lparr>data = JStr (createArraySummary long_note_list),
              truncated = True,
              message = Some ''Response too large (3603 words). Showing summary. Use maxItems and fields filters to get specific data.'',
              metadata = None\<rparr>
   \<and> countWords (createArraySummary long_note_list) = 3612"
proof -
  obtain t where t: "stringify2 long_note_list = Some t" and c: "countWords t = 3603"
    using count_long_note_list by auto
  have "limitResponse long_note_list summary_only
       = Inr \<lparr>data = JStr (createArraySummary long_note_list),
              truncated = True,
              message = Some ''Response too large (3603 words). Showing summary. Use maxItems and fields filters to get specific data.'',
              metadata = None\<rparr>"
    using t c
    by (simp add: limitResponse_def limit_filtered_def hasFilters_def summary_only_def
        MAX_WORDS_def show_nat.simps digit_def long_note_list_def)
  then show ?thesis
    using count_long_note_list count_summary by (simp add: hasFilters_def summary_only_def)
qed

theorem summary_not_truncated_witness:
  "3500 + 11 < countWords (createArraySummary long_note_list)"
  using summary_not_truncated by simp

section \<open>The size of the filtered payload\<close>

lemma null_is_small: "countWords ''null'' = 1"
  by (simp add: count_eval)

text \<open>Without filters, a value over the ceiling is answered with its metadata.\<close>

lemma no_filters_gives_metadata:
  assumes "stringify2 d = Some t" and "MAX_WORDS < countWords t" and "\<not> hasFilters options"
  shows "limitResponse d options = Inr (metadata_response d (countWords t))"
proof -
  have "d \<noteq> JUndefined" using assms(1) by (auto simp: stringify2_def)
  moreover have "d \<noteq> JNull"
    using assms(1,2) null_is_small by (auto simp: stringify2_def MAX_WORDS_def)
  ultimately show ?thesis
    using assms by (simp add: limitResponse_def Let_def)
qed

lemma final_check_bounded:
  assumes "stringify2 v = Some j" and "(\<forall>s. v \<noteq> JStr s) \<or> MAX_WORDS < countWords j"
  shows "\<exists>r t. final_check (v, msg) = Inr r \<and> payload_text (data r) = Some t
           \<and> countWords t \<le> MAX_WORDS + 11"
proof (cases "MAX_WORDS < countWords j")
  case True
  then have "countWords (truncateToWords j MAX_WORDS) = MAX_WORDS + 11"
    by (intro truncateToWords_count) (simp_all add: MAX_WORDS_def)
  then show ?thesis
    using assms(1) True by (simp add: final_check_def payload_text_def)
next
  case False
  then have "\<forall>s. v \<noteq> JStr s" using assms(2) by simp
  then have "payload_text v = Some j"
    using assms(1) by (cases v) (simp_all add: payload_text_def)
  then show ?thesis
    using assms(1) False by (simp add: final_check_def)
qed

lemma limit_object_is_object: "\<exists>obj. fst (limit_object kvs) = JObj obj"
  by (simp add: limit_object_def Let_def)

lemma array_has_text: "\<exists>j. stringify2 (JArr ys) = Some j"
  by (simp add: stringify2_def)

lemma object_has_text: "\<exists>j. stringify2 (JObj obj) = Some j"
  by (simp add: stringify2_def)

text \<open>
  Every filtered path but the summary ends in the final check: the payload has at most 3500
  words, or is the JSON text cut to 3500 words with the marker of 11 words.
\<close>

lemma filtered_payload_bounded:
  assumes "stringify2 d = Some t0" and "MAX_WORDS < countWords t0" and "hasFilters options"
    and "\<not> (\<exists>xs. d = JArr xs \<and> summary options = Some True)"
  shows "\<exists>r t. limitResponse d options = Inr r \<and> payload_text (data r) = Some t
           \<and> countWords t \<le> MAX_WORDS + 11"
proof -
  have "d \<noteq> JUndefined" using assms(1) by (auto simp: stringify2_def)
  moreover have "d \<noteq> JNull"
    using assms(1,2) null_is_small by (auto simp: stringify2_def MAX_WORDS_def)
  ultimately have run: "limitResponse d options = limit_filtered d options (countWords t0)"
    using assms(1,2,3) by (simp add: limitResponse_def Let_def)
  have "\<exists>r t. limit_filtered d options (countWords t0) = Inr r
      \<and> payload_text (data r) = Some t \<and> countWords t \<le> MAX_WORDS + 11"
  proof (cases d)
    case (JArr xs)
    obtain ys where ys: "fst (limit_array xs options) = JArr ys"
      using limit_array_is_array by blast
    obtain j where "stringify2 (JArr ys) = Some j" using array_has_text by blast
    then have "\<exists>r t. final_check (JArr ys, snd (limit_array xs options)) = Inr r
        \<and> payload_text (data r) = Some t \<and> countWords t \<le> MAX_WORDS + 11"
      by (intro final_check_bounded) simp_all
    moreover have "limit_array xs options = (JArr ys, snd (limit_array xs options))"
      using ys by (simp add: prod_eq_iff)
    ultimately show ?thesis using JArr assms(4) by (simp add: limit_filtered_def)
  next
    case (JObj kvs)
    obtain obj where obj: "fst (limit_object kvs) = JObj obj"
      using limit_object_is_object by blast
    obtain j where "stringify2 (JObj obj) = Some j" using object_has_text by blast
    then have "\<exists>r t. final_check (JObj obj, snd (limit_object kvs)) = Inr r
        \<and> payload_text (data r) = Some t \<and> countWords t \<le> MAX_WORDS + 11"
      by (intro final_check_bounded) simp_all
    moreover have "limit_object kvs = (JObj obj, snd (limit_object kvs))"
      using obj by (simp add: prod_eq_iff)
    ultimately show ?thesis using JObj by (simp add: limit_filtered_def)
  next
    case JUndefined
    then show ?thesis using \<open>d \<noteq> JUndefined\<close> by simp
  next
    case JNull
    then show ?thesis using \<open>d \<noteq> JNull\<close> by simp
  next
    case (JBool b)
    then show ?thesis
      using final_check_bounded [OF assms(1), of "[]"] assms(2) by (simp add: limit_filtered_def)
  next
    case (JNum n)
    then show ?thesis
      using final_check_bounded [OF assms(1), of "[]"] assms(2) by (simp add: limit_filtered_def)
  next
    case (JStr s)
    then show ?thesis
      using final_check_bounded [OF assms(1), of "[]"] assms(2) by (simp add: limit_filtered_def)
  qed
  then show ?thesis by (simp add: run)
qed








section \<open>Evaluating paths and numerals\<close>

lemmas path_eval = stat_def segments_def path_basename_def path_extname_def path_join_def
  path_normalize_def toLowerCase_def lower_char_def capital_letters_def small_letters_def

lemmas show_eval = show_int_def show_nat.simps digit_def

section \<open>The document handler: extracting the text of a PDF\<close>

lemma max_or_default: "max 1 (or_default (Some s) 1) = max 1 s"
  by (simp add: or_default_def)

lemma page_block_in_range:
  "1 \<le> n \<Longrightarrow> n \<le> int (length ps) \<Longrightarrow>
   page_block ps n = [CHR 0x0A, CHR 0x0A] @ ''--- PAGE '' @ show_int n @ '' ---''
                     @ [CHR 0x0A, CHR 0x0A] @ ps ! nat (n - 1)"
  by (auto simp: page_block_def Let_def)

text \<open>
  Claim C8, as amended. \<open>extractPdfText\<close> on a document of \<open>N\<close> pages, with options that
  list no pages; an absent \<open>startPage\<close> or \<open>endPage\<close> counts as 0, as \<open>||\<close> reads both alike.
  When start and end are both 0 the whole text is returned, named \<open>1-N\<close>. Otherwise the
  pages from \<open>max(1, start)\<close> to the last page are extracted in ascending order, each under
  its header \<open>--- PAGE n ---\<close>, and named \<open>first-last\<close>; the last page is \<open>min(N, end)\<close> when
  \<open>end\<close> is not 0, and \<open>N\<close> when it is. The text of the result is the report header, with
  the number of pages, the descriptor and the length of the extracted text, a rule of 80
  equals signs, and the extracted text.
\<close>

theorem page_range_is_clamped:
  assumes "readFileSync t filepath = Inr bytes" and "pdf_getText rt bytes = Inr tr"
    and "pages opts = None \<or> pages opts = Some []"
  shows "let n = int (length (page_texts tr));
             s = (case startPage opts of Some x \<Rightarrow> x | None \<Rightarrow> 0);
             e = (case endPage opts of Some x \<Rightarrow> x | None \<Rightarrow> 0);
             first = max 1 s;
             last = (if e = 0 then n else min n e);
             extractedText =
               (if s = 0 \<and> e = 0 then full_text tr
                else concat (map (\<lambda>pageNum. [CHR 0x0A, CHR 0x0A] @ ''--- PAGE ''
                                    @ show_int pageNum @ '' ---'' @ [CHR 0x0A, CHR 0x0A]
                                    @ page_texts tr ! nat (pageNum - 1)) [first..last]));
             descriptor =
               (if s = 0 \<and> e = 0 then ''1-'' @ show_int n
                else show_int first @ ''-'' @ show_int last);
             r = extractPdfText rt t filepath (Some opts)
         in totalPages r = length (page_texts tr)
            \<and> extractedPages r = descriptor
            \<and> pdf_text r = ''PDF: '' @ path_basename filepath @ [CHR 0x0A]
                  @ ''Total Pages: '' @ show_nat (length (page_texts tr))
                  @ '' | Extracted Pages: '' @ descriptor
                  @ '' | Text Length: '' @ show_nat (length extractedText) @ '' characters''
                  @ [CHR 0x0A, CHR 0x0A] @ replicate 80 CHR ''='' @ [CHR 0x0A] @ extractedText"
proof -
  define n where "n = int (length (page_texts tr))"
  define s where "s = (case startPage opts of Some x \<Rightarrow> x | None \<Rightarrow> 0)"
  define e where "e = (case endPage opts of Some x \<Rightarrow> x | None \<Rightarrow> 0)"
  define first where "first = max 1 s"
  define last where "last = (if e = 0 then n else min n e)"
  define whole where "whole = (s = 0 \<and> e = 0)"
  define extractedText where "extractedText =
    (if whole then full_text tr
     else concat (map (\<lambda>pageNum. [CHR 0x0A, CHR 0x0A] @ ''--- PAGE ''
                         @ show_int pageNum @ '' ---'' @ [CHR 0x0A, CHR 0x0A]
                         @ page_texts tr ! nat (pageNum - 1)) [first..last]))"
  define descriptor where "descriptor =
    (if whole then ''1-'' @ show_int n else show_int first @ ''-'' @ show_int last)"
  have blocks: "map (page_block (page_texts tr)) [first..last]
      = map (\<lambda>pageNum. [CHR 0x0A, CHR 0x0A] @ ''--- PAGE '' @ show_int pageNum
                                  @ '' ---'' @ [CHR 0x0A, CHR 0x0A]
                                  @ page_texts tr ! nat (pageNum - 1)) [first..last]"
  proof (rule map_cong [OF refl])
    fix x assume "x \<in> set [first..last]"
    then have "1 \<le> x" and "x \<le> int (length (page_texts tr))"
      by (auto simp: first_def last_def n_def split: if_splits)
    then show "page_block (page_texts tr) x = [CHR 0x0A, CHR 0x0A] @ ''--- PAGE '' @ show_int x
                                  @ '' ---'' @ [CHR 0x0A, CHR 0x0A]
                                  @ page_texts tr ! nat (x - 1)"
      by (rule page_block_in_range)
  qed
  have range: "truthy (startPage opts) \<or> truthy (endPage opts) \<longleftrightarrow> \<not> whole"
    by (auto simp: truthy_def whole_def s_def e_def split: option.splits)
  have bounds: "max 1 (or_default (startPage opts) 1) = first"
    "min n (or_default (endPage opts) n) = last"
    by (auto simp: or_default_def first_def last_def s_def e_def split: option.splits)
  have "select_pages tr (Some opts) =
      (if truthy (startPage opts) \<or> truthy (endPage opts)
       then (concat (map (page_block (page_texts tr)) [first..last]),
             show_int first @ ''-'' @ show_int last)
       else (full_text tr, ''1-'' @ show_int n))"
    using assms(3) by (auto simp: select_pages_def Let_def n_def [symmetric] bounds)
  then have sel: "select_pages tr (Some opts) = (extractedText, descriptor)"
    unfolding range blocks extractedText_def descriptor_def by (cases whole) simp_all
  have main: "totalPages (extractPdfText rt t filepath (Some opts)) = length (page_texts tr)
      \<and> extractedPages (extractPdfText rt t filepath (Some opts)) = descriptor
      \<and> pdf_text (extractPdfText rt t filepath (Some opts))
          = ''PDF: '' @ path_basename filepath @ [CHR 0x0A]
            @ ''Total Pages: '' @ show_nat (length (page_texts tr))
            @ '' | Extracted Pages: '' @ descriptor
            @ '' | Text Length: '' @ show_nat (length extractedText) @ '' characters''
            @ [CHR 0x0A, CHR 0x0A] @ replicate 80 CHR ''='' @ [CHR 0x0A] @ extractedText"
    using assms(1,2) by (simp add: extractPdfText_def Let_def sel)
  show ?thesis
    using main
    by (simp only: Let_def n_def s_def e_def first_def last_def extractedText_def
        descriptor_def whole_def)
qed

text \<open>
  Claim C9. When the file is read and the parser throws, \<open>extractPdfText\<close> returns: its text
  carries the parser's message, \<open>totalPages\<close> is 0 and the descriptor of the extracted pages
  is \<open>error\<close>.
\<close>

theorem extractPdfText_degraded:
  assumes "readFileSync t filepath = Inr bytes" and "pdf_getText rt bytes = Inl msg"
  shows "extractPdfText rt t filepath pageOptions =
           \<lparr>pdf_text = ''PDF file: '' @ path_basename filepath @ [CHR 0x0A, CHR 0x0A]
              @ ''Error extracting text: '' @ msg @ [CHR 0x0A, CHR 0x0A]
              @ ''File location: '' @ filepath,
            totalPages = 0,
            extractedPages = ''error''\<rparr>"
  using assms by (simp add: extractPdfText_def)

lemma rhp_bytes: "readFileSync demo_disk rhp_path = Inr ''%PDF five pages''"
  by (simp add: readFileSync_def demo_disk_def rhp_path_def path_eval)

lemma broken_bytes: "readFileSync demo_disk broken_path = Inr ''not a pdf''"
  by (simp add: readFileSync_def demo_disk_def broken_path_def path_eval)

lemma rhp_base: "path_basename rhp_path = ''rhp.pdf''"
  by (simp add: rhp_path_def path_basename_def)

lemma rhp_parsed: "pdf_getText demo_runtime ''%PDF five pages'' = Inr five_pages"
  by (simp add: demo_runtime_def)

lemma broken_parsed: "pdf_getText demo_runtime ''not a pdf'' = Inl ''Invalid PDF structure''"
  by (simp add: demo_runtime_def)

text \<open>From page 0 to page 10000 on five pages: pages 1 to 5, named \<open>1-5\<close>.\<close>

theorem page_range_is_clamped_witness:
  "readFileSync demo_disk rhp_path = Inr ''%PDF five pages''
   \<and> pdf_getText demo_runtime ''%PDF five pages'' = Inr five_pages
   \<and> pages whole_range = None
   \<and> totalPages (extractPdfText demo_runtime demo_disk rhp_path (Some whole_range)) = 5
   \<and> extractedPages (extractPdfText demo_runtime demo_disk rhp_path (Some whole_range)) = ''1-5''
   \<and> pdf_text (extractPdfText demo_runtime demo_disk rhp_path (Some whole_range))
       = ''PDF: rhp.pdf'' @ [CHR 0x0A]
         @ ''Total Pages: 5 | Extracted Pages: 1-5 | Text Length: 114 characters''
         @ [CHR 0x0A, CHR 0x0A] @ rule80 @ [CHR 0x0A]
         @ page_heading ''1'' @ ''alpha'' @ page_heading ''2'' @ ''beta'' @ page_heading ''3''
         @ ''gamma'' @ page_heading ''4'' @ ''delta'' @ page_heading ''5'' @ ''omega''"
proof -
  let ?r = "extractPdfText demo_runtime demo_disk rhp_path (Some whole_range)"
  have none: "pages whole_range = None \<or> pages whole_range = Some []"
    by (simp add: whole_range_def)
  have "totalPages ?r = 5 \<and> extractedPages ?r = ''1-5''
      \<and> pdf_text ?r = ''PDF: rhp.pdf'' @ [CHR 0x0A]
         @ ''Total Pages: 5 | Extracted Pages: 1-5 | Text Length: 114 characters''
         @ [CHR 0x0A, CHR 0x0A] @ rule80 @ [CHR 0x0A]
         @ page_heading ''1'' @ ''alpha'' @ page_heading ''2'' @ ''beta'' @ page_heading ''3''
         @ ''gamma'' @ page_heading ''4'' @ ''delta'' @ page_heading ''5'' @ ''omega''"
    using page_range_is_clamped [OF rhp_bytes rhp_parsed none]
    by (simp add: whole_range_def five_pages_def page_heading_def rule80_def rhp_base
        show_eval Let_def upto_rec1)
  then show ?thesis
    by (simp add: rhp_bytes rhp_parsed whole_range_def)
qed

text \<open>
  The range from page 4 with end 0, on five pages: the claim as stated gives the empty range
  \<open>4-0\<close>; the code extracts pages 4 and 5 and names them \<open>4-5\<close>.
\<close>

theorem zero_end_means_last_page:
  "extractedPages (extractPdfText demo_runtime demo_disk rhp_path (Some open_range)) = ''4-5''
   \<and> show_int (max 1 4) @ ''-'' @ show_int (min (int (length (page_texts five_pages))) 0) = ''4-0''
   \<and> pdf_text (extractPdfText demo_runtime demo_disk rhp_path (Some open_range))
       = ''PDF: rhp.pdf'' @ [CHR 0x0A]
         @ ''Total Pages: 5 | Extracted Pages: 4-5 | Text Length: 46 characters''
         @ [CHR 0x0A, CHR 0x0A] @ rule80 @ [CHR 0x0A]
         @ page_heading ''4'' @ ''delta'' @ page_heading ''5'' @ ''omega''"
proof -
  have "extractPdfText demo_runtime demo_disk rhp_path (Some open_range)
      = (let sel = select_pages five_pages (Some open_range)
         in \<lparr>pdf_text = ''PDF: '' @ path_basename rhp_path @ [CHR 0x0A]
                @ ''Total Pages: '' @ show_nat (length (page_texts five_pages))
                @ '' | Extracted Pages: '' @ snd sel
                @ '' | Text Length: '' @ show_nat (length (fst sel)) @ '' characters''
                @ [CHR 0x0A, CHR 0x0A] @ replicate 80 CHR ''='' @ [CHR 0x0A] @ fst sel,
              totalPages = length (page_texts five_pages), extractedPages = snd sel\<rparr>)"
    by (simp add: extractPdfText_def rhp_bytes rhp_parsed Let_def)
  then show ?thesis
    by (simp add: select_pages_def open_range_def five_pages_def page_heading_def
        page_block_def truthy_def or_default_def show_eval Let_def rule80_def rhp_base
        upto_rec1)
qed

text \<open>A file that is not a PDF.\<close>

theorem extractPdfText_degraded_witness:
  "extractPdfText demo_runtime demo_disk broken_path None =
     \<lparr>pdf_text = ''PDF file: broken.pdf'' @ [CHR 0x0A, CHR 0x0A]
        @ ''Error extracting text: Invalid PDF structure'' @ [CHR 0x0A, CHR 0x0A]
        @ ''File location: /srv/app/downloads/documents/broken.pdf'',
      totalPages = 0,
      extractedPages = ''error''\<rparr>"
  using extractPdfText_degraded [OF broken_bytes broken_parsed, of None]
  by (simp add: broken_path_def path_eval)

section \<open>The file system\<close>

lemma map_of_set_entry:
  "map_of (set_entry s x es) q = (if q = s then x else map_of es q)"
proof (cases x)
  case None
  then show ?thesis
    by (induction es) (auto simp: set_entry_def)
next
  case (Some m)
  show ?thesis
  proof (cases "s \<in> set (map fst es)")
    case True
    have "map_of (map (\<lambda>e. if fst e = s then (s, m) else e) es) q
        = (if q = s then (if s \<in> set (map fst es) then Some m else None) else map_of es q)"
      by (induction es) force+
    then show ?thesis using True Some by (simp add: set_entry_def)
  next
    case False
    then have "map_of es s = None" by (simp add: map_of_eq_None_iff)
    then show ?thesis using False Some
      by (auto simp: set_entry_def map_add_def split: option.splits)
  qed
qed

lemma lookup_alter_at:
  "ss \<noteq> [] \<Longrightarrow> lookup t (butlast ss) = Some (Dir es) \<Longrightarrow>
   lookup (alter f ss t) ss = f (map_of es (last ss))"
proof (induction ss arbitrary: t)
  case Nil
  then show ?case by simp
next
  case (Cons s ss)
  show ?case
  proof (cases ss)
    case Nil
    then show ?thesis using Cons.prems
      by (cases "f (map_of es s)") (auto simp: map_of_set_entry)
  next
    case (Cons s' r)
    then obtain es0 n0 where t: "t = Dir es0" and n0: "map_of es0 s = Some n0"
      and sub: "lookup n0 (butlast ss) = Some (Dir es)"
      using Cons.prems(2) by (cases t) (auto split: option.splits)
    have "lookup (alter f ss n0) ss = f (map_of es (last ss))"
      using Cons.IH [OF _ sub] Cons by simp
    then show ?thesis using t n0 Cons by (simp add: map_of_set_entry)
  qed
qed




lemma mkdirp_makes: "mkdirp ss t = Some t' \<Longrightarrow> lookup t' ss \<noteq> None"
proof (induction ss t arbitrary: t' rule: mkdirp.induct)
  case (4 s ss es)
  show ?case
  proof (cases "map_of es s")
    case None
    then obtain n' where n': "mkdirp ss (Dir []) = Some n'" and t': "t' = Dir (es @ [(s, n')])"
      using "4.prems"(1) by (auto split: option.splits)
    then show ?thesis using "4.IH"(1) [OF None n'] None
      by (auto simp: map_add_def split: option.splits)
  next
    case (Some n)
    then obtain n' where n': "mkdirp ss n = Some n'"
      and t': "t' = Dir (set_entry s (Some n') es)"
      using "4.prems"(1) by (auto split: option.splits)
    then show ?thesis using "4.IH"(2) [OF Some n'] by (simp add: map_of_set_entry)
  qed
qed simp_all

section \<open>The document handler: downloading\<close>

lemma lookup_parent:
  "ss \<noteq> [] \<Longrightarrow> lookup t ss = Some n \<Longrightarrow>
   \<exists>es. lookup t (butlast ss) = Some (Dir es) \<and> map_of es (last ss) = Some n"
proof (induction ss arbitrary: t)
  case Nil
  then show ?case by simp
next
  case (Cons s ss)
  then obtain es0 n0 where t: "t = Dir es0" and n0: "map_of es0 s = Some n0"
    and sub: "lookup n0 ss = Some n"
    by (cases t) (auto split: option.splits)
  show ?case
  proof (cases ss)
    case Nil
    then show ?thesis using t n0 sub by simp
  next
    case (Cons s' r)
    then show ?thesis using Cons.IH [of n0] t n0 sub by auto
  qed
qed

lemma stat_file:
  "stat t p = Some (File c) \<longleftrightarrow>
   lookup t (segments p) = Some (File c) \<and> p \<noteq> [] \<and> last p \<noteq> CHR ''/''"
  by (auto simp: stat_def split: option.splits node.splits)



lemma fs_unlink_removes:
  assumes "fs_unlink t p = Some t'"
  shows "stat t' p = None"
proof -
  obtain c where "stat t p = Some (File c)" and ne: "segments p \<noteq> []"
    and t': "t' = alter (\<lambda>old. None) (segments p) t"
    using assms by (auto simp: fs_unlink_def split: option.splits node.splits if_splits)
  then have c: "lookup t (segments p) = Some (File c)" by (simp add: stat_file)
  obtain es where "lookup t (butlast (segments p)) = Some (Dir es)"
    using lookup_parent [OF ne c] by blast
  then have "lookup t' (segments p) = None" using ne t' by (simp add: lookup_alter_at)
  then show ?thesis by (simp add: stat_def)
qed

lemma run_settled: "dl_promise st \<noteq> Pending \<Longrightarrow> run_events m p st es = st"
  by (cases es) simp_all






lemma on_event_clean:
  assumes "not_created p st" and "dl_promise st = Pending"
    and "e \<noteq> Timeout" and "\<forall>msg. e \<noteq> RequestError msg"
  shows "((\<exists>msg. dl_promise (on_event m p st e) = Rejected msg)
            \<longrightarrow> stat (dl_fs (on_event m p st e)) p = None)
       \<and> (dl_promise (on_event m p st e) = Pending \<longrightarrow> not_created p (on_event m p st e))"
proof (cases e)
  case (Response sc loc cl)
  then show ?thesis using assms
    by (auto simp: on_response_def not_created_def Let_def split: option.splits)
next
  case (Data chunk)
  then show ?thesis using assms
    by (auto simp: on_data_def not_created_def Let_def fs_unlink_removes split: option.splits)
next
  case Finish
  then show ?thesis using assms by (auto simp: not_created_def)
next
  case (StreamError msg)
  then show ?thesis using assms
    by (auto simp: on_stream_error_def not_created_def fs_unlink_removes split: option.splits)
next
  case (RequestError msg)
  then show ?thesis using assms by simp
next
  case Timeout
  then show ?thesis using assms by simp
qed

lemma run_clean:
  "not_created p st \<Longrightarrow> dl_promise st = Pending \<Longrightarrow> Timeout \<notin> set es \<Longrightarrow>
   \<forall>msg. RequestError msg \<notin> set es \<Longrightarrow>
   dl_promise (run_events m p st es) = Rejected msg \<Longrightarrow>
   stat (dl_fs (run_events m p st es)) p = None"
proof (induction es arbitrary: st)
  case Nil
  then show ?case by simp
next
  case (Cons e es)
  let ?st' = "on_event m p st e"
  have e: "e \<noteq> Timeout" "\<forall>msg. e \<noteq> RequestError msg"
    using Cons.prems(3,4) by auto
  note step = on_event_clean [OF Cons.prems(1,2) e, of m]
  show ?case
  proof (cases "dl_promise ?st' = Pending")
    case True
    then have "not_created p ?st'" using step by simp
    then show ?thesis
      using Cons.IH [of ?st'] True Cons.prems(2,3,4,5) by simp
  next
    case False
    then have "run_events m p st (e # es) = ?st'"
      using Cons.prems(2) by (simp add: run_settled)
    then show ?thesis
      using step Cons.prems(5) by auto
  qed
qed

text \<open>
  The failures that do clean up: when neither \<open>timeout\<close> nor the request's \<open>error\<close> occurs,
  a rejected download of a file that did not exist leaves no file.
\<close>

lemma failure_without_timeout_leaves_no_file:
  assumes "\<not> existsSync t p" and "Timeout \<notin> set es" and "\<forall>msg. RequestError msg \<notin> set es"
    and "downloadFile url p m t es = (Rejected msg, t')"
  shows "\<not> existsSync t' p"
proof -
  let ?st0 = "\<lparr>dl_fs = t, dl_promise = Pending, streaming = False, stream_open = False,
               downloadedBytes = 0\<rparr>"
  have "not_created p ?st0" using assms(1) by (simp add: not_created_def existsSync_def)
  moreover have "dl_promise (run_events m p ?st0 es) = Rejected msg"
    and "t' = dl_fs (run_events m p ?st0 es)"
    using assms(4) by (simp_all add: downloadFile_def Let_def)
  ultimately show ?thesis
    using run_clean [of p ?st0 es m msg] assms(2,3) by (simp add: existsSync_def)
qed

lemma new_path_absent: "\<not> existsSync demo_disk new_path"
  by (simp add: existsSync_def demo_disk_def new_path_def path_eval)

lemma stalled_run:
  "downloadFile ''https://example.com/docs/new.pdf'' new_path 50 demo_disk stalled_download
   = (Rejected ''Download timeout'',
      Dir [(''srv'', Dir [(''app'', Dir [(''downloads'', Dir [(''documents'',
        Dir [(''rhp.pdf'', File ''%PDF five pages''),
             (''broken.pdf'', File ''not a pdf''),
             (''report.zip'', File ''PK''),
             (''new.pdf'', File ''%PDF-1.7 partial'')])])])])])"
  by (simp add: downloadFile_def stalled_download_def on_response_def on_data_def
      fs_open_write_def fs_append_def demo_disk_def new_path_def path_eval
      set_entry_def given_def Let_def)

text \<open>
  Claim C6 (a download that fails, times out or exceeds the size limit leaves no partial file
  on disk) does not hold of the code for a timeout: the handler of \<open>timeout\<close> destroys the
  request and rejects, and does not unlink the file. Here the response has begun, one chunk has
  been written, and the request then times out: the promise is rejected with
  \<open>Download timeout\<close>, and the file, which did not exist before, holds the chunk.
\<close>

theorem timeout_leaves_partial_file:
  "\<not> existsSync demo_disk new_path
   \<and> fst (downloadFile ''https://example.com/docs/new.pdf'' new_path 50 demo_disk stalled_download)
       = Rejected ''Download timeout''
   \<and> readFileSync (snd (downloadFile ''https://example.com/docs/new.pdf'' new_path 50 demo_disk
         stalled_download)) new_path = Inr ''%PDF-1.7 partial''"
proof (intro conjI)
  show "\<not> existsSync demo_disk new_path" by (rule new_path_absent)
  show "fst (downloadFile ''https://example.com/docs/new.pdf'' new_path 50 demo_disk
     stalled_download) = Rejected ''Download timeout''"
    by (simp add: stalled_run)
  show "readFileSync (snd (downloadFile ''https://example.com/docs/new.pdf'' new_path 50 demo_disk
         stalled_download)) new_path = Inr ''%PDF-1.7 partial''"
    unfolding stalled_run by (simp add: readFileSync_def new_path_def path_eval)
qed


section \<open>The document handler: reading pages\<close>

lemma path_normalize_nonempty: "path_normalize p \<noteq> []"
  by (auto simp: path_normalize_def Let_def)

lemma path_join_nonempty: "path_join ps \<noteq> []"
  by (simp add: path_join_def Let_def path_normalize_nonempty)

lemma all_files_nonempty:
  "[] \<notin> set acc \<Longrightarrow> [] \<notin> set (all_files d es acc)"
  by (induction d es acc rule: all_files.induct) (simp_all add: path_join_nonempty [symmetric])


lemma after_download_found:
  "after_download fp r = (Found f, w1) \<Longrightarrow> f = fp"
  by (auto simp: after_download_def split: promise.splits)

lemma resolve_file_nonempty:
  assumes "resolve_file rt events w fname_opt url_opt maxSizeMB = (Found filepath, w1)"
  shows "filepath \<noteq> []"
proof -
  have found: "\<And>allFiles f others. getAllFiles (disk w) (downloadDir rt) = Inr allFiles \<Longrightarrow>
      filter (\<lambda>f. path_basename f = text_of fname_opt) allFiles = f # others \<Longrightarrow> f \<noteq> []"
  proof -
    fix allFiles f others
    assume a: "getAllFiles (disk w) (downloadDir rt) = Inr allFiles"
      and b: "filter (\<lambda>f. path_basename f = text_of fname_opt) allFiles = f # others"
    from a have "[] \<notin> set allFiles"
      by (auto simp: getAllFiles_def all_files_nonempty split: option.splits node.splits)
    moreover from b have "f \<in> set allFiles"
    proof -
      have "f \<in> set (filter (\<lambda>f. path_basename f = text_of fname_opt) allFiles)"
        by (simp add: b)
      then show ?thesis by simp
    qed
    ultimately show "f \<noteq> []" by auto
  qed
  show ?thesis
    using assms found
    by (auto simp: resolve_file_def Let_def path_join_nonempty
        dest!: after_download_found split: if_splits sum.splits list.splits option.splits)
qed

text \<open>
  Claim C10. When \<open>readDocumentPages\<close> settles on a file, cached or just downloaded, whose
  extension in lower case is not \<open>.pdf\<close>, it returns the failure
  \<open>This tool only supports PDF files. File type: <extension>\<close> and extracts nothing, whatever
  the type of the file.
\<close>

theorem readDocumentPages_only_pdf:
  assumes "resolve_file rt events w fname_opt url_opt maxSizeMB = (Found filepath, w1)"
    and "toLowerCase (path_extname filepath) \<noteq> ''.pdf''"
  shows "readDocumentPages rt events w fname_opt url_opt pageOptions maxSizeMB
         = (Returned (failure (''This tool only supports PDF files. File type: ''
                               @ toLowerCase (path_extname filepath))), w1)"
  using assms resolve_file_nonempty [OF assms(1)]
  by (simp add: readDocumentPages_def Let_def)

text \<open>A cached ZIP archive asked for by its name.\<close>

lemma report_found:
  "resolve_file demo_runtime [] demo_world (Some ''report.zip'') None 50
   = (Found report_path, demo_world)"
  by (simp add: resolve_file_def given_def text_of_def downloadDir_def demo_runtime_def
      demo_world_def demo_disk_def report_path_def existsSync_def path_eval Let_def)

lemma report_ext: "toLowerCase (path_extname report_path) = ''.zip''"
  by (simp add: report_path_def path_eval)

theorem readDocumentPages_only_pdf_witness:
  "resolve_file demo_runtime [] demo_world (Some ''report.zip'') None 50
     = (Found report_path, demo_world)
   \<and> toLowerCase (path_extname report_path) = ''.zip''
   \<and> readDocumentPages demo_runtime [] demo_world (Some ''report.zip'') None whole_range 50
     = (Returned (failure ''This tool only supports PDF files. File type: .zip''), demo_world)"
  using readDocumentPages_only_pdf [OF report_found, of whole_range]
  by (simp add: report_found report_ext)

section \<open>The document handler: cached files\<close>





lemma await_download_log:
  "fetch_log (snd (await_download url fp m es w))
   = fetch_log w @ [(url, fst (await_download url fp m es w))]"
  by (simp add: await_download_def Let_def)


lemma completed_await:
  "completed (snd (await_download url fp m es w))
   = completed w + (if fst (await_download url fp m es w) = Resolved then 1 else 0)"
  by (simp add: completed_def await_download_log)






























end
